theory Spec2Isabelle
  imports
    Complex_Main
    "HOL-Library.Sublist"
    "HOL-Library.Multiset"
    "HOL-Library.Char_ord"
    "HOL-Library.List_Lexorder"
    "HOL-Library.Product_Lexorder"
begin

chapter \<open>Media serving and query engine of the image-service twin\<close>

text \<open>
  A shallow embedding of the delivery pipeline (package \<open>imageproc\<close> and the delivery
  handler), of the signing-key handlers and of the V2 listing (handler and SQLite
  queries). Go byte slices and Go strings are both \<open>char list\<close>: an Isabelle
  \<open>char\<close> is one byte, and the conversions \<open>[]byte(s)\<close> and \<open>string(b)\<close> are the
  identity. A Go \<open>error\<close> is its message.
\<close>

section \<open>Package imageproc\<close>

type_synonym bytes = "char list"

subsection \<open>Format detection\<close>

text \<open>\<open>DetectFormat\<close>: every index is read under the length test of its own branch.\<close>

definition DetectFormat :: "bytes \<Rightarrow> string" where
  "DetectFormat data =
     (if length data \<ge> 3 \<and> data ! 0 = CHR 0xFF \<and> data ! 1 = CHR 0xD8 \<and> data ! 2 = CHR 0xFF
      then ''jpeg''
      else if length data \<ge> 8 \<and> data ! 0 = CHR 0x89 \<and> data ! 1 = CHR 0x50
              \<and> data ! 2 = CHR 0x4E \<and> data ! 3 = CHR 0x47 \<and> data ! 4 = CHR 0x0D
              \<and> data ! 5 = CHR 0x0A \<and> data ! 6 = CHR 0x1A \<and> data ! 7 = CHR 0x0A
      then ''png''
      else if length data \<ge> 6 \<and> data ! 0 = CHR ''G'' \<and> data ! 1 = CHR ''I''
              \<and> data ! 2 = CHR ''F''
      then ''gif''
      else if length data \<ge> 12 \<and> data ! 0 = CHR ''R'' \<and> data ! 1 = CHR ''I''
              \<and> data ! 2 = CHR ''F'' \<and> data ! 3 = CHR ''F'' \<and> data ! 8 = CHR ''W''
              \<and> data ! 9 = CHR ''E'' \<and> data ! 10 = CHR ''B'' \<and> data ! 11 = CHR ''P''
      then ''webp''
      else [])"

text \<open>\<open>bytes.Contains b sub\<close>: \<open>sub\<close> occurs in \<open>b\<close> as a contiguous block.\<close>

fun Contains :: "bytes \<Rightarrow> bytes \<Rightarrow> bool" where
  "Contains [] sub = (sub = [])"
| "Contains (x # xs) sub = (prefix sub (x # xs) \<or> Contains xs sub)"

text \<open>
  \<open>IsSVG\<close>: the header is the first 512 bytes, or all of them when there are fewer.
  Go's \<open>&&\<close> binds tighter than \<open>||\<close>, so the test is
  \<open>has "<svg" || (has "<?xml" && has "<svg")\<close>.
\<close>

definition IsSVG :: "bytes \<Rightarrow> bool" where
  "IsSVG data =
     (if length data = 0 then False
      else
        let limit = (if length data < 512 then length data else 512);
            header = take limit data
        in Contains header ''<svg''
           \<or> (Contains header ''<?xml'' \<and> Contains header ''<svg''))"

subsection \<open>Decoded images and the libraries behind the transform\<close>

text \<open>
  A decoded raster image: the size of its bounds (\<open>Bounds().Dx()\<close>, \<open>Bounds().Dy()\<close>)
  and its pixel data, which the code of this package never inspects.
\<close>

record image =
  Dx :: int
  Dy :: int
  pix :: "nat list"

record VariantOptions =
  Fit :: string
  Width :: int
  Height :: int
  Metadata :: string

text \<open>
  The functions of \<open>disintegration/imaging\<close> and of Go's \<open>image\<close> codecs are library
  code: they are parameters of the model. \<open>float_scale\<close> stands for the float64
  arithmetic of \<open>fitContain\<close>, which yields the two rounded sizes before clamping.
\<close>

record imaging =
  imaging_Fit :: "image \<Rightarrow> int \<Rightarrow> int \<Rightarrow> image"
  imaging_Resize :: "image \<Rightarrow> int \<Rightarrow> int \<Rightarrow> image"
  imaging_Fill :: "image \<Rightarrow> int \<Rightarrow> int \<Rightarrow> image"
  imaging_CropCenter :: "image \<Rightarrow> int \<Rightarrow> int \<Rightarrow> image"
  imaging_New :: "int \<Rightarrow> int \<Rightarrow> image"
  imaging_PasteCenter :: "image \<Rightarrow> image \<Rightarrow> image"
  float_scale :: "int \<Rightarrow> int \<Rightarrow> int \<Rightarrow> int \<Rightarrow> int \<times> int"
  image_Decode :: "bytes \<Rightarrow> string + image"
  jpeg_Encode :: "image \<Rightarrow> nat \<Rightarrow> string + bytes"
  png_Encode :: "image \<Rightarrow> string + bytes"
  gif_Encode :: "image \<Rightarrow> string + bytes"

subsection \<open>The fit modes\<close>

definition fitScaleDown :: "imaging \<Rightarrow> image \<Rightarrow> int \<Rightarrow> int \<Rightarrow> int \<Rightarrow> int \<Rightarrow> image" where
  "fitScaleDown lib img origW origH targetW targetH =
     (if origW \<le> targetW \<and> origH \<le> targetH then img
      else imaging_Fit lib img targetW targetH)"

definition fitContain :: "imaging \<Rightarrow> image \<Rightarrow> int \<Rightarrow> int \<Rightarrow> image" where
  "fitContain lib img targetW targetH =
     (let origW = Dx img; origH = Dy img;
          (newW, newH) = float_scale lib origW origH targetW targetH;
          newW = (if newW < 1 then 1 else newW);
          newH = (if newH < 1 then 1 else newH)
      in imaging_Resize lib img newW newH)"

definition fitCover :: "imaging \<Rightarrow> image \<Rightarrow> int \<Rightarrow> int \<Rightarrow> image" where
  "fitCover lib img targetW targetH = imaging_Fill lib img targetW targetH"

definition fitCrop :: "imaging \<Rightarrow> image \<Rightarrow> int \<Rightarrow> int \<Rightarrow> image" where
  "fitCrop lib img targetW targetH = imaging_CropCenter lib img targetW targetH"

definition fitPad :: "imaging \<Rightarrow> image \<Rightarrow> int \<Rightarrow> int \<Rightarrow> image" where
  "fitPad lib img targetW targetH =
     (let fitted = imaging_Fit lib img targetW targetH
      in imaging_PasteCenter lib (imaging_New lib targetW targetH) fitted)"

definition applyFit :: "imaging \<Rightarrow> image \<Rightarrow> VariantOptions \<Rightarrow> image" where
  "applyFit lib img opts =
     (let origW = Dx img; origH = Dy img;
          targetW = (if Width opts = 0 then origW else Width opts);
          targetH = (if Height opts = 0 then origH else Height opts)
      in if Fit opts = ''scale-down'' then fitScaleDown lib img origW origH targetW targetH
         else if Fit opts = ''contain'' then fitContain lib img targetW targetH
         else if Fit opts = ''cover'' then fitCover lib img targetW targetH
         else if Fit opts = ''crop'' then fitCrop lib img targetW targetH
         else if Fit opts = ''pad'' then fitPad lib img targetW targetH
         else fitScaleDown lib img origW origH targetW targetH)"

subsection \<open>Encoding and the transform\<close>

definition encodeImage :: "imaging \<Rightarrow> image \<Rightarrow> string \<Rightarrow> string + bytes" where
  "encodeImage lib img format =
     (if format = ''jpeg'' then jpeg_Encode lib img 85
      else if format = ''png'' then png_Encode lib img
      else if format = ''gif'' then gif_Encode lib img
      else Inl (''unsupported output format: '' @ format))"

text \<open>
  \<open>Transform\<close>: \<open>src\<close> is what \<open>io.ReadAll\<close> yields for the reader, an error or the
  whole buffer. The result is the error, or the output bytes with the format.
\<close>

definition Transform :: "imaging \<Rightarrow> string + bytes \<Rightarrow> VariantOptions \<Rightarrow> string + bytes \<times> string" where
  "Transform lib src opts =
     (case src of
        Inl err \<Rightarrow> Inl (''reading source: '' @ err)
      | Inr data \<Rightarrow>
          if IsSVG data then Inr (data, ''svg'')
          else
            let format = DetectFormat data
            in if format = ''gif'' then Inr (data, ''gif'')
               else if format = [] then Inl ''unsupported or unrecognized image format''
               else
                 (case image_Decode lib data of
                    Inl err \<Rightarrow> Inl (''decoding image: '' @ err)
                  | Inr img \<Rightarrow>
                      (case encodeImage lib (applyFit lib img opts) format of
                         Inl err \<Rightarrow> Inl (''encoding image: '' @ err)
                       | Inr out \<Rightarrow> Inr (out, format))))"

section \<open>Go library functions used by the handlers\<close>

text \<open>
  \<open>url.Values\<close> is a Go map from a parameter name to its values. It is kept as the list
  of its entries, in the order in which a \<open>range\<close> loop happens to visit them; the
  names are distinct. \<open>Get\<close> yields the first value of a name, or the empty string.
\<close>

type_synonym Values = "(string \<times> string list) list"

definition Values_Get :: "Values \<Rightarrow> string \<Rightarrow> string" where
  "Values_Get q name =
     (case map_of q name of
        None \<Rightarrow> []
      | Some vs \<Rightarrow> (case vs of [] \<Rightarrow> [] | v # _ \<Rightarrow> v))"

text \<open>
  \<open>strconv.ParseInt s 10 64\<close> (and \<open>strconv.Atoi\<close> on a 64-bit platform): an optional
  sign, then one or more decimal digits; \<open>None\<close> is a syntax or a range error.
\<close>

definition isDigit :: "char \<Rightarrow> bool" where
  "isDigit c = (48 \<le> (of_char c :: nat) \<and> (of_char c :: nat) \<le> 57)"

fun decimal :: "int \<Rightarrow> string \<Rightarrow> int" where
  "decimal acc [] = acc"
| "decimal acc (c # cs) = decimal (acc * 10 + ((of_char c :: int) - 48)) cs"

definition ParseInt :: "string \<Rightarrow> int option" where
  "ParseInt s =
     (case s of
        [] \<Rightarrow> None
      | c # cs \<Rightarrow>
          let neg = (c = CHR ''-'');
              digits = (if c = CHR ''+'' \<or> c = CHR ''-'' then cs else s)
          in if digits = [] \<or> \<not> list_all isDigit digits then None
             else
               let un = decimal 0 digits
               in if \<not> neg \<and> un \<ge> 2 ^ 63 then None
                  else if neg \<and> un > 2 ^ 63 then None
                  else Some (if neg then - un else un))"

text \<open>
  \<open>encoding/hex\<close>: \<open>DecodeString\<close> accepts both letter cases and fails on an odd
  length or on a byte that is no hex digit; \<open>EncodeToString\<close> writes lower case.
\<close>

definition fromHexChar :: "char \<Rightarrow> nat option" where
  "fromHexChar c =
     (let n = (of_char c :: nat)
      in if 48 \<le> n \<and> n \<le> 57 then Some (n - 48)
         else if 97 \<le> n \<and> n \<le> 102 then Some (n - 97 + 10)
         else if 65 \<le> n \<and> n \<le> 70 then Some (n - 65 + 10)
         else None)"

fun hex_DecodeString :: "string \<Rightarrow> bytes option" where
  "hex_DecodeString [] = Some []"
| "hex_DecodeString [c] = None"
| "hex_DecodeString (a # b # rest) =
     (case fromHexChar a of
        None \<Rightarrow> None
      | Some p \<Rightarrow>
          (case fromHexChar b of
             None \<Rightarrow> None
           | Some q \<Rightarrow>
               (case hex_DecodeString rest of
                  None \<Rightarrow> None
                | Some bs \<Rightarrow> Some (char_of (p * 16 + q) # bs))))"

definition hextable :: string where
  "hextable = ''0123456789abcdef''"

fun hex_EncodeToString :: "bytes \<Rightarrow> string" where
  "hex_EncodeToString [] = []"
| "hex_EncodeToString (b # bs) =
     hextable ! ((of_char b :: nat) div 16) # hextable ! ((of_char b :: nat) mod 16)
       # hex_EncodeToString bs"

text \<open>
  \<open>strings.EqualFold v "desc"\<close>: equality under Unicode simple case folding. The letters
  d, e and c fold only with their capitals; s also folds with the long s (U+017F, the
  two bytes C5 BF in UTF-8).
\<close>

definition EqualFold_desc :: "string \<Rightarrow> bool" where
  "EqualFold_desc v =
     (case v of
        d # e # rest \<Rightarrow>
          (d = CHR ''d'' \<or> d = CHR ''D'') \<and> (e = CHR ''e'' \<or> e = CHR ''E'')
          \<and> (rest = ''sc'' \<or> rest = ''sC'' \<or> rest = ''Sc'' \<or> rest = ''SC''
               \<or> rest = [CHR 0xC5, CHR 0xBF, CHR ''c'']
               \<or> rest = [CHR 0xC5, CHR 0xBF, CHR ''C''])
      | _ \<Rightarrow> False)"

text \<open>
  The remaining library functions are parameters: HMAC-SHA256 (key, then message), the
  test whether \<open>json.Unmarshal\<close> accepts a text, and \<open>time_reformat\<close>: the text that
  \<open>Format(time.RFC3339Nano)\<close> prints for the UTC time that \<open>time.Parse(time.RFC3339, _)\<close>
  reads from a text (the zero time if the text does not parse). The last parameter
  belongs to SQLite: \<open>sqlite_number\<close> is the number that SQLite makes of a text under
  NUMERIC affinity, for the texts that are well-formed integer or real literals.
\<close>

record stdlib =
  hmac_sha256 :: "bytes \<Rightarrow> bytes \<Rightarrow> bytes"
  json_Valid :: "string \<Rightarrow> bool"
  time_reformat :: "string \<Rightarrow> string"
  sqlite_number :: "string \<Rightarrow> rat option"

section \<open>The SQLite database\<close>

text \<open>
  The tables that the handlers below read and write, each a list of rows. A row of
  \<open>images\<close> carries the persisted fields of \<open>model.Image\<close>; the JSON text of \<open>meta\<close>
  is kept as it is stored.
  \<open>CreateImage\<close> writes \<open>uploaded\<close> as \<open>Uploaded.UTC().Format(time.RFC3339)\<close>, a text
  that is no numeric literal, which SQLite stores and compares as text (byte order, a
  proper prefix first: the order of \<open>string\<close> here). The time of an image is kept as the
  text that was written to its column.
  \<open>scanImage\<close> parses the text and the cursor prints the time again with the layout
  \<open>RFC3339Nano\<close>: that round trip is \<open>time_reformat\<close>. On a text that \<open>CreateImage\<close>
  wrote it gives the same text back, since a time without fractional seconds prints
  alike in both layouts.
\<close>

record Image =
  ID :: string
  AccountID :: string
  Filename :: string
  Creator :: string
  Meta :: string
  RequireSignedURLs :: bool
  Uploaded :: string

record Variant =
  VariantID :: string
  VariantAccountID :: string
  Options :: VariantOptions
  NeverRequireSignedURLs :: bool

record SigningKey =
  KeyName :: string
  KeyValue :: string
  KeyAccountID :: string
  CreatedAt :: string

record metadata_row =
  m_account_id :: string
  m_image_id :: string
  m_key :: string
  m_value :: string

record SQLiteDB =
  images :: "Image list"
  variants :: "Variant list"
  signing_keys :: "SigningKey list"
  image_metadata :: "metadata_row list"

text \<open>The primary keys of \<open>images\<close> and of \<open>image_metadata\<close>, as the schema declares them.\<close>

definition primary_keys :: "SQLiteDB \<Rightarrow> bool" where
  "primary_keys db =
     (distinct (map (\<lambda>r. (AccountID r, ID r)) (images db))
      \<and> distinct (map (\<lambda>m. (m_account_id m, m_image_id m, m_key m)) (image_metadata db)))"

subsection \<open>Scanning rows\<close>

definition scanImage :: "stdlib \<Rightarrow> Image \<Rightarrow> string + Image" where
  "scanImage std row =
     (if Meta row \<noteq> [] \<and> Meta row \<noteq> ''{}'' \<and> \<not> json_Valid std (Meta row)
      then Inl ''unmarshal image metadata''
      else Inr row)"

fun scanImages :: "stdlib \<Rightarrow> Image list \<Rightarrow> string + Image list" where
  "scanImages std [] = Inr []"
| "scanImages std (row # rows) =
     (case scanImage std row of
        Inl err \<Rightarrow> Inl err
      | Inr img \<Rightarrow>
          (case scanImages std rows of
             Inl err \<Rightarrow> Inl err
           | Inr imgs \<Rightarrow> Inr (img # imgs)))"

subsection \<open>Single-row lookups and signing keys\<close>

definition GetImage :: "stdlib \<Rightarrow> SQLiteDB \<Rightarrow> string \<Rightarrow> string \<Rightarrow> string + Image" where
  "GetImage std db accountID imageID =
     (case find (\<lambda>r. AccountID r = accountID \<and> ID r = imageID) (images db) of
        None \<Rightarrow> Inl ''scan image: sql: no rows in result set''
      | Some row \<Rightarrow> scanImage std row)"

definition GetVariant :: "SQLiteDB \<Rightarrow> string \<Rightarrow> string \<Rightarrow> string + Variant" where
  "GetVariant db accountID variantID =
     (case find (\<lambda>v. VariantAccountID v = accountID \<and> VariantID v = variantID) (variants db) of
        None \<Rightarrow> Inl ''get variant: sql: no rows in result set''
      | Some v \<Rightarrow> Inr v)"

definition ListSigningKeys :: "SQLiteDB \<Rightarrow> string \<Rightarrow> string + SigningKey list" where
  "ListSigningKeys db accountID =
     Inr (sort_key KeyName (filter (\<lambda>k. KeyAccountID k = accountID) (signing_keys db)))"



subsection \<open>The V2 listing queries\<close>

text \<open>
  A listing call returns an error, or panics on an index out of range, or returns the
  page and the next cursor.
\<close>

datatype fault = Err string | IndexOutOfRange

definition sort_direction :: "string \<Rightarrow> string" where
  "sort_direction sortOrder = (if EqualFold_desc sortOrder then ''DESC'' else ''ASC'')"

text \<open>
  The column \<open>uploaded\<close> is declared \<open>DATETIME\<close>, which gives it NUMERIC affinity: a text
  that is a numeric literal is stored as that number, any other text as it is, and the
  same conversion is applied to a text that is compared with the column. A number sorts
  before every text, numbers sort by value and texts by their bytes. \<open>column_value\<close>
  is the value of a text under that affinity, as a triple whose lexicographic order is
  the order of SQLite: whether it is a text, the number, the text.
\<close>

definition column_value :: "stdlib \<Rightarrow> string \<Rightarrow> bool \<times> rat \<times> string" where
  "column_value std t =
     (case sqlite_number std t of
        Some n \<Rightarrow> (False, n, [])
      | None \<Rightarrow> (True, 0, t))"

text \<open>\<open>ORDER BY uploaded, id\<close>, both ascending or both descending.\<close>

definition order_by :: "stdlib \<Rightarrow> string \<Rightarrow> Image list \<Rightarrow> Image list" where
  "order_by std order rows =
     (if order = ''ASC'' then sort_key (\<lambda>r. (column_value std (Uploaded r), ID r)) rows
      else rev (sort_key (\<lambda>r. (column_value std (Uploaded r), ID r)) rows))"

text \<open>\<open>LIMIT n\<close>: SQLite takes a negative limit as no limit.\<close>

definition limit :: "int \<Rightarrow> 'a list \<Rightarrow> 'a list" where
  "limit n rows = (if n < 0 then rows else take (nat n) rows)"

text \<open>\<open>strings.SplitN cursor "|" 2\<close> when it yields two parts: the cut is at the first bar.\<close>

definition splitCursor :: "string \<Rightarrow> (string \<times> string) option" where
  "splitCursor cursor =
     (if CHR ''|'' \<in> set cursor
      then Some (takeWhile (\<lambda>c. c \<noteq> CHR ''|'') cursor, tl (dropWhile (\<lambda>c. c \<noteq> CHR ''|'') cursor))
      else None)"

text \<open>
  The cursor predicate of the \<open>WHERE\<close> clause. The timestamp of the cursor is compared
  with the column \<open>uploaded\<close>, so under its affinity; the id with the column \<open>id\<close>, which
  is \<open>TEXT\<close>.
\<close>

definition after_cursor :: "stdlib \<Rightarrow> string \<Rightarrow> string \<Rightarrow> string \<Rightarrow> Image \<Rightarrow> bool" where
  "after_cursor std order cursorUploaded cursorID r =
     (let uploaded = column_value std (Uploaded r);
          cursorValue = column_value std cursorUploaded
      in if order = ''ASC''
         then uploaded > cursorValue \<or> (uploaded = cursorValue \<and> ID r > cursorID)
         else uploaded < cursorValue \<or> (uploaded = cursorValue \<and> ID r < cursorID))"

text \<open>
  The end of both listing functions: a full page yields the cursor of its last image.
  \<open>images[len(images)-1]\<close> panics on the empty page, which is full when \<open>perPage\<close> is 0.
\<close>

definition page_result :: "stdlib \<Rightarrow> Image list \<Rightarrow> int \<Rightarrow> fault + Image list \<times> string" where
  "page_result std imgs perPage =
     (if int (length imgs) = perPage
      then (if imgs = [] then Inl IndexOutOfRange
            else Inr (imgs, time_reformat std (Uploaded (last imgs)) @ ''|'' @ ID (last imgs)))
      else Inr (imgs, []))"

definition ListImagesV2 ::
  "stdlib \<Rightarrow> SQLiteDB \<Rightarrow> string \<Rightarrow> string \<Rightarrow> int \<Rightarrow> string \<Rightarrow> fault + Image list \<times> string" where
  "ListImagesV2 std db accountID cursor perPage sortOrder =
     (let order = sort_direction sortOrder;
          selected = filter (\<lambda>r. AccountID r = accountID) (images db);
          rows =
            (if cursor = [] then Inr (limit perPage (order_by std order selected))
             else
               (case splitCursor cursor of
                  None \<Rightarrow> Inl (Err ''invalid cursor'')
                | Some (cursorUploaded, cursorID) \<Rightarrow>
                    Inr (limit perPage (order_by std order
                          (filter (after_cursor std order cursorUploaded cursorID) selected)))))
      in case rows of
           Inl e \<Rightarrow> Inl e
         | Inr rs \<Rightarrow>
             (case scanImages std rs of
                Inl err \<Rightarrow> Inl (Err err)
              | Inr imgs \<Rightarrow> page_result std imgs perPage))"

text \<open>The comparison that \<open>ListImagesWithFilter\<close> puts between \<open>m.value\<close> and the value.\<close>

definition opSQL :: "string \<Rightarrow> string \<Rightarrow> string \<Rightarrow> bool" where
  "opSQL op a b =
     (if op = ''eq'' then a = b
      else if op = ''ne'' then a \<noteq> b
      else if op = ''lt'' then a < b
      else if op = ''gt'' then a > b
      else if op = ''le'' \<or> op = ''lte'' then a \<le> b
      else if op = ''ge'' \<or> op = ''gte'' then a \<ge> b
      else a = b)"

text \<open>
  \<open>images i INNER JOIN image_metadata m\<close> with the \<open>WHERE\<close> clause on account, key and
  value: one result row for every pair of an image and a metadata row that match.
\<close>

definition join_metadata :: "SQLiteDB \<Rightarrow> string \<Rightarrow> string \<Rightarrow> string \<Rightarrow> string \<Rightarrow> Image list" where
  "join_metadata db accountID key op valStr =
     concat (map (\<lambda>i. map (\<lambda>m. i)
        (filter (\<lambda>m. AccountID i = m_account_id m \<and> ID i = m_image_id m
                      \<and> AccountID i = accountID \<and> m_key m = key \<and> opSQL op (m_value m) valStr)
                (image_metadata db)))
        (images db))"

definition ListImagesWithFilter ::
  "stdlib \<Rightarrow> SQLiteDB \<Rightarrow> string \<Rightarrow> string \<Rightarrow> int \<Rightarrow> string \<Rightarrow> string \<Rightarrow> string \<Rightarrow> string
     \<Rightarrow> fault + Image list \<times> string" where
  "ListImagesWithFilter std db accountID cursor perPage sortOrder key op val =
     (let order = sort_direction sortOrder;
          selected = join_metadata db accountID key op val;
          rows =
            (if cursor = [] then Inr (limit perPage (order_by std order selected))
             else
               (case splitCursor cursor of
                  None \<Rightarrow> Inl (Err ''invalid cursor'')
                | Some (cursorUploaded, cursorID) \<Rightarrow>
                    Inr (limit perPage (order_by std order
                          (filter (after_cursor std order cursorUploaded cursorID) selected)))))
      in case rows of
           Inl e \<Rightarrow> Inl e
         | Inr rs \<Rightarrow>
             (case scanImages std rs of
                Inl err \<Rightarrow> Inl (Err err)
              | Inr imgs \<Rightarrow> page_result std imgs perPage))"

section \<open>The handlers\<close>

record Config =
  EnforceSignedURLs :: bool

text \<open>The blob store maps an account and an image id to the stored original.\<close>

record Handler =
  DB :: SQLiteDB
  Store :: "string \<times> string \<rightharpoonup> bytes"
  Config :: Config

definition Retrieve :: "(string \<times> string \<rightharpoonup> bytes) \<Rightarrow> string \<Rightarrow> string \<Rightarrow> string + bytes" where
  "Retrieve store accountID imageID =
     (case store (accountID, imageID) of
        None \<Rightarrow> Inl (''image not found: '' @ accountID @ ''/'' @ imageID)
      | Some data \<Rightarrow> Inr data)"

subsection \<open>Signed URLs\<close>

text \<open>The loop over the keys of \<open>verifySignature\<close>; \<open>hmac.Equal\<close> is equality of byte slices.\<close>

fun verify_keys :: "stdlib \<Rightarrow> bytes \<Rightarrow> bytes \<Rightarrow> SigningKey list \<Rightarrow> bool" where
  "verify_keys std message sig [] = False"
| "verify_keys std message sig (key # keys) =
     (if sig = hmac_sha256 std (KeyValue key) message then True
      else verify_keys std message sig keys)"

text \<open>\<open>verifySignature\<close>; \<open>now\<close> is \<open>time.Now().Unix()\<close> and \<open>query\<close> is \<open>r.URL.Query()\<close>.\<close>

definition verifySignature ::
  "stdlib \<Rightarrow> int \<Rightarrow> Handler \<Rightarrow> Values \<Rightarrow> string \<Rightarrow> string \<Rightarrow> string \<Rightarrow> bool" where
  "verifySignature std now h query accountID imageID variantName =
     (let sigHex = Values_Get query ''sig'';
          expStr = Values_Get query ''exp''
      in if sigHex = [] \<or> expStr = [] then False
         else
           (case ParseInt expStr of
              None \<Rightarrow> False
            | Some expUnix \<Rightarrow>
                if now > expUnix then False
                else
                  (case hex_DecodeString sigHex of
                     None \<Rightarrow> False
                   | Some sig \<Rightarrow>
                       (case ListSigningKeys (DB h) accountID of
                          Inl err \<Rightarrow> False
                        | Inr keys \<Rightarrow>
                            if length keys = 0 then False
                            else
                              let path = ''/cdn/'' @ accountID @ ''/'' @ imageID @ ''/'' @ variantName;
                                  message = path @ expStr
                              in verify_keys std message sig keys))))"

text \<open>\<open>signURL\<close>, the helper with which the delivery tests sign a path.\<close>

definition signURL :: "stdlib \<Rightarrow> string \<Rightarrow> string \<Rightarrow> string \<Rightarrow> string" where
  "signURL std keyValue path expStr = hex_EncodeToString (hmac_sha256 std keyValue (path @ expStr))"

subsection \<open>Delivery\<close>

record response =
  status :: nat
  content_type :: string
  body :: bytes

definition http_Error :: "string \<Rightarrow> nat \<Rightarrow> response" where
  "http_Error msg code =
     \<lparr>status = code, content_type = ''text/plain; charset=utf-8'', body = msg @ [CHR 0x0A]\<rparr>"

definition formatToContentType :: "string \<Rightarrow> string" where
  "formatToContentType format =
     (if format = ''jpeg'' then ''image/jpeg''
      else if format = ''png'' then ''image/png''
      else if format = ''gif'' then ''image/gif''
      else if format = ''webp'' then ''image/webp''
      else if format = ''svg'' then ''image/svg+xml''
      else ''application/octet-stream'')"

text \<open>
  \<open>DeliverImage\<close> returns its response together with the calls it made to its
  collaborators, in order. \<open>deliver_original\<close> is the part of the handler from
  \<open>Store.Retrieve\<close> on; it extends the log of the calls made before it.
\<close>

datatype call = CallGetImage | CallGetVariant | CallVerifySignature | CallRetrieve | CallTransform

definition deliver_original ::
  "imaging \<Rightarrow> Handler \<Rightarrow> string \<Rightarrow> string \<Rightarrow> Variant \<Rightarrow> call list \<Rightarrow> response \<times> call list" where
  "deliver_original lib h accountID imageID variant calls =
     (case Retrieve (Store h) accountID imageID of
        Inl err \<Rightarrow> (http_Error ''image not found'' 404, calls @ [CallRetrieve])
      | Inr data \<Rightarrow>
          (case Transform lib (Inr data) (Options variant) of
             Inl err \<Rightarrow>
               (http_Error ''internal server error'' 500, calls @ [CallRetrieve, CallTransform])
           | Inr (transformed, format) \<Rightarrow>
               (\<lparr>status = 200, content_type = formatToContentType format, body = transformed\<rparr>,
                calls @ [CallRetrieve, CallTransform])))"

definition DeliverImage ::
  "imaging \<Rightarrow> stdlib \<Rightarrow> int \<Rightarrow> Handler \<Rightarrow> Values \<Rightarrow> string \<Rightarrow> string \<Rightarrow> string
     \<Rightarrow> response \<times> call list" where
  "DeliverImage lib std now h query accountID imageID variantName =
     (case GetImage std (DB h) accountID imageID of
        Inl err \<Rightarrow> (http_Error ''image not found'' 404, [CallGetImage])
      | Inr img \<Rightarrow>
          (case GetVariant (DB h) accountID variantName of
             Inl err \<Rightarrow> (http_Error ''variant not found'' 404, [CallGetImage, CallGetVariant])
           | Inr variant \<Rightarrow>
               if EnforceSignedURLs (Config h) \<and> RequireSignedURLs img
                  \<and> \<not> NeverRequireSignedURLs variant
               then
                 (if \<not> verifySignature std now h query accountID imageID variantName
                  then (http_Error ''forbidden'' 403,
                        [CallGetImage, CallGetVariant, CallVerifySignature])
                  else deliver_original lib h accountID imageID variant
                         [CallGetImage, CallGetVariant, CallVerifySignature])
               else deliver_original lib h accountID imageID variant
                      [CallGetImage, CallGetVariant]))"

subsection \<open>Signing keys\<close>

text \<open>
  A response of the JSON API: an error envelope with its HTTP status, code and message,
  or the success envelope with its result; or the handler panicked.
\<close>

datatype 'a api_response = ApiError nat nat string | ApiSuccess 'a | Panicked

definition BadRequest :: "string \<Rightarrow> 'a api_response" where
  "BadRequest msg = ApiError 400 9400 msg"




subsection \<open>The V2 listing\<close>

record metadataFilter =
  Key :: string
  Op :: string
  Value :: string

text \<open>
  The body of the loop of \<open>parseMetadataFilters\<close> on one entry of \<open>r.URL.Query()\<close>:
  it goes on to the next entry (\<open>continue\<close>, or a filter without a value), appends a
  filter, or returns the error of an operator outside the six known ones. The first
  closing bracket ends the key.
\<close>

datatype parsed_param = Skipped | Parsed metadataFilter | Unsupported string

definition parse_param :: "string \<times> string list \<Rightarrow> parsed_param" where
  "parse_param entry =
     (let param = fst entry; vals = snd entry
      in if \<not> prefix ''metadata['' param then Skipped
         else
           let rest = drop (length ''metadata['') param
           in if CHR '']'' \<notin> set rest then Skipped
              else
                let key = takeWhile (\<lambda>c. c \<noteq> CHR '']'') rest;
                    rest = tl (dropWhile (\<lambda>c. c \<noteq> CHR '']'') rest)
                in if \<not> prefix ''['' rest \<or> \<not> suffix '']'' rest then Skipped
                   else
                     let op = butlast (tl rest)
                     in if op = ''eq'' \<or> op = ''ne'' \<or> op = ''lt'' \<or> op = ''gt''
                           \<or> op = ''lte'' \<or> op = ''gte''
                        then (if length vals > 0
                              then Parsed \<lparr>Key = key, Op = op, Value = hd vals\<rparr>
                              else Skipped)
                        else Unsupported op)"

text \<open>
  The loop itself, over the entries in the order in which \<open>range\<close> visits them, with
  the filters appended so far.
\<close>

fun parseMetadataFilters_loop :: "Values \<Rightarrow> metadataFilter list \<Rightarrow> string + metadataFilter list" where
  "parseMetadataFilters_loop [] filters = Inr filters"
| "parseMetadataFilters_loop (entry # entries) filters =
     (case parse_param entry of
        Skipped \<Rightarrow> parseMetadataFilters_loop entries filters
      | Parsed f \<Rightarrow> parseMetadataFilters_loop entries (filters @ [f])
      | Unsupported op \<Rightarrow> Inl (''unsupported metadata filter operator: '' @ op))"

definition parseMetadataFilters :: "Values \<Rightarrow> string + metadataFilter list" where
  "parseMetadataFilters q = parseMetadataFilters_loop q []"

text \<open>
  The handler \<open>ListImagesV2\<close> on the account of the request and its query. Its first
  two blocks read \<open>per_page\<close> (default 20, at most 100) and \<open>sort_order\<close> (default
  \<open>asc\<close>); its last block turns the outcome of the database call into the response. A
  panic of the database call is what the router's recoverer would catch.
\<close>

definition parsePerPage :: "Values \<Rightarrow> int" where
  "parsePerPage q =
     (let v = Values_Get q ''per_page''
      in if v \<noteq> []
         then (case ParseInt v of
                 Some pp \<Rightarrow> if pp > 0 then (if pp > 100 then 100 else pp) else 20
               | None \<Rightarrow> 20)
         else 20)"

definition parseSortOrder :: "Values \<Rightarrow> string" where
  "parseSortOrder q =
     (let v = Values_Get q ''sort_order''
      in if v \<noteq> [] \<and> EqualFold_desc v then ''desc'' else ''asc'')"

definition list_response :: "fault + Image list \<times> string \<Rightarrow> (Image list \<times> string) api_response" where
  "list_response r =
     (case r of
        Inl (Err err) \<Rightarrow> ApiError 500 9500 ''failed to list images''
      | Inl IndexOutOfRange \<Rightarrow> Panicked
      | Inr (imgs, nextCursor) \<Rightarrow> ApiSuccess (imgs, nextCursor))"

definition Handler_ListImagesV2 ::
  "stdlib \<Rightarrow> SQLiteDB \<Rightarrow> string \<Rightarrow> Values \<Rightarrow> (Image list \<times> string) api_response" where
  "Handler_ListImagesV2 std db accountID q =
     (let perPage = parsePerPage q;
          sortOrder = parseSortOrder q;
          cursor = Values_Get q ''continuation_token''
      in case parseMetadataFilters q of
           Inl err \<Rightarrow> BadRequest err
         | Inr filters \<Rightarrow>
             if length filters > 5 then BadRequest ''too many metadata filters (max 5)''
             else
               list_response
                 (if length filters > 0
                  then (let f = hd filters
                        in ListImagesWithFilter std db accountID cursor perPage sortOrder
                             (Key f) (Op f) (Value f))
                  else ListImagesV2 std db accountID cursor perPage sortOrder))"

text \<open>
  A client that reads a whole listing: it sends the query \<open>q\<close>, then sends it again
  with each continuation token it is given, until the token comes back empty. The
  result is the list of the pages, or the response that was no success; \<open>None\<close> when
  the number of requests allowed ran out first.
\<close>

definition with_token :: "string \<Rightarrow> Values \<Rightarrow> Values" where
  "with_token token q = (if token = [] then q else (''continuation_token'', [token]) # q)"

fun follow_tokens ::
  "nat \<Rightarrow> stdlib \<Rightarrow> SQLiteDB \<Rightarrow> string \<Rightarrow> Values \<Rightarrow> string
     \<Rightarrow> ((Image list \<times> string) api_response + Image list list) option" where
  "follow_tokens 0 std db accountID q token = None"
| "follow_tokens (Suc n) std db accountID q token =
     (case Handler_ListImagesV2 std db accountID (with_token token q) of
        ApiSuccess (page, next) \<Rightarrow>
          if next = [] then Some (Inr [page])
          else
            (case follow_tokens n std db accountID q next of
               None \<Rightarrow> None
             | Some (Inl r) \<Rightarrow> Some (Inl r)
             | Some (Inr pages) \<Rightarrow> Some (Inr (page # pages)))
      | r \<Rightarrow> Some (Inl r))"

section \<open>Notions in which the listing is specified\<close>

text \<open>
  The image records of an account that match the optional metadata filter, in the order
  of the table: with a filter, an image matches when it has a metadata row for the key
  whose value stands in the relation of the operator to the value of the filter.
\<close>

definition matching_images :: "SQLiteDB \<Rightarrow> string \<Rightarrow> metadataFilter list \<Rightarrow> Image list" where
  "matching_images db accountID fs =
     (case fs of
        [] \<Rightarrow> filter (\<lambda>r. AccountID r = accountID) (images db)
      | f # _ \<Rightarrow>
          filter (\<lambda>r. AccountID r = accountID
                      \<and> (\<exists>m \<in> set (image_metadata db).
                            m_account_id m = accountID \<and> m_image_id m = ID r \<and> m_key m = Key f
                            \<and> opSQL (Op f) (m_value m) (Value f)))
                 (images db))"

text \<open>
  The strict composite order on (uploaded, id): for a pair \<open>(ts, id)\<close> and an image,
  the image comes strictly after the pair in the direction of the \<open>sort_order\<close> text.
  Timestamps are ordered as texts here; that is the order of the column on the texts
  that are no numeric literals.
\<close>

definition strictly_after :: "string \<Rightarrow> string \<times> string \<Rightarrow> Image \<Rightarrow> bool" where
  "strictly_after sortOrder c r =
     (if EqualFold_desc sortOrder
      then Uploaded r < fst c \<or> (Uploaded r = fst c \<and> ID r < snd c)
      else fst c < Uploaded r \<or> (fst c = Uploaded r \<and> snd c < ID r))"

definition strictly_before :: "string \<Rightarrow> Image \<Rightarrow> Image \<Rightarrow> bool" where
  "strictly_before sortOrder a b = strictly_after sortOrder (Uploaded a, ID a) b"

text \<open>
  The filters that the parameters of a query carry, in the order of its entries.
\<close>

definition filters_of :: "Values \<Rightarrow> metadataFilter list" where
  "filters_of q = concat (map (\<lambda>e. case parse_param e of Parsed f \<Rightarrow> [f] | _ \<Rightarrow> []) q)"

section \<open>Concrete instances\<close>

text \<open>
  Instances of the library parameters and a small database, on which the model is run.
  The imaging instance tracks sizes only; the HMAC instance is a stand-in that yields 32
  bytes, as HMAC-SHA256 does; of the numeric literals of SQLite the instance knows the
  integers (an optional sign and decimal digits).
\<close>

definition test_imaging :: imaging where
  "test_imaging =
     \<lparr>imaging_Fit = (\<lambda>img w h. \<lparr>Dx = w, Dy = h, pix = []\<rparr>),
      imaging_Resize = (\<lambda>img w h. \<lparr>Dx = w, Dy = h, pix = []\<rparr>),
      imaging_Fill = (\<lambda>img w h. \<lparr>Dx = w, Dy = h, pix = []\<rparr>),
      imaging_CropCenter = (\<lambda>img w h. \<lparr>Dx = w, Dy = h, pix = []\<rparr>),
      imaging_New = (\<lambda>w h. \<lparr>Dx = w, Dy = h, pix = []\<rparr>),
      imaging_PasteCenter = (\<lambda>bg img. bg),
      float_scale = (\<lambda>origW origH targetW targetH. (targetW, targetH)),
      image_Decode = (\<lambda>data. Inl ''no decoder''),
      jpeg_Encode = (\<lambda>img quality. Inl ''no encoder''),
      png_Encode = (\<lambda>img. Inl ''no encoder''),
      gif_Encode = (\<lambda>img. Inl ''no encoder'')\<rparr>"

definition integer_literal :: "string \<Rightarrow> rat option" where
  "integer_literal s =
     (case s of
        [] \<Rightarrow> None
      | c # cs \<Rightarrow>
          let digits = (if c = CHR ''+'' \<or> c = CHR ''-'' then cs else s)
          in if digits = [] \<or> \<not> list_all isDigit digits then None
             else Some (of_int (if c = CHR ''-'' then - decimal 0 digits else decimal 0 digits)))"

definition test_stdlib :: stdlib where
  "test_stdlib =
     \<lparr>hmac_sha256 = (\<lambda>key message. take 32 (key @ message @ replicate 32 (CHR ''0''))),
      json_Valid = (\<lambda>text. True),
      time_reformat = (\<lambda>text. text),
      sqlite_number = integer_literal\<rparr>"

definition test_image :: "string \<Rightarrow> string \<Rightarrow> string \<Rightarrow> bool \<Rightarrow> Image" where
  "test_image accountID imageID uploaded signed =
     \<lparr>ID = imageID, AccountID = accountID, Filename = imageID @ ''.gif'', Creator = [],
      Meta = ''{}'', RequireSignedURLs = signed, Uploaded = uploaded\<rparr>"

definition test_db :: SQLiteDB where
  "test_db =
     \<lparr>images =
        [test_image ''acct-1'' ''img-c'' ''2024-01-01T00:00:01Z'' False,
         test_image ''acct-1'' ''img-a'' ''2024-01-01T00:00:00Z'' True,
         test_image ''acct-2'' ''img-a'' ''2024-01-01T00:00:00Z'' False,
         test_image ''acct-1'' ''img-b'' ''2024-01-01T00:00:00Z'' False],
      variants =
        [\<lparr>VariantID = ''thumb'', VariantAccountID = ''acct-1'',
          Options = \<lparr>Fit = ''scale-down'', Width = 100, Height = 100, Metadata = ''none''\<rparr>,
          NeverRequireSignedURLs = False\<rparr>,
         \<lparr>VariantID = ''public'', VariantAccountID = ''acct-1'',
          Options = \<lparr>Fit = ''cover'', Width = 50, Height = 80, Metadata = ''none''\<rparr>,
          NeverRequireSignedURLs = True\<rparr>],
      signing_keys =
        [\<lparr>KeyName = ''key1'', KeyValue = ''test-secret-key-value'', KeyAccountID = ''acct-1'',
          CreatedAt = ''2024-01-01T00:00:00Z''\<rparr>],
      image_metadata =
        [\<lparr>m_account_id = ''acct-1'', m_image_id = ''img-a'', m_key = ''env'',
          m_value = ''production''\<rparr>,
         \<lparr>m_account_id = ''acct-1'', m_image_id = ''img-b'', m_key = ''env'',
          m_value = ''staging''\<rparr>,
         \<lparr>m_account_id = ''acct-1'', m_image_id = ''img-c'', m_key = ''env'',
          m_value = ''production''\<rparr>,
         \<lparr>m_account_id = ''acct-1'', m_image_id = ''img-c'', m_key = ''team'',
          m_value = ''web''\<rparr>]\<rparr>"

definition test_handler :: Handler where
  "test_handler =
     \<lparr>DB = test_db,
      Store = [(''acct-1'', ''img-a'') \<mapsto> ''GIF89a-frames'', (''acct-1'', ''img-b'') \<mapsto> ''<svg></svg>''],
      Config = \<lparr>EnforceSignedURLs = True\<rparr>\<rparr>"

text \<open>Three queries of the V2 listing: with two filters, with none and with one.\<close>

definition two_filters :: Values where
  "two_filters =
     [(''metadata[env][eq]'', [''production'']), (''per_page'', [''2'']),
      (''metadata[team][eq]'', [''web''])]"

definition newest_first :: Values where
  "newest_first = [(''per_page'', [''2'']), (''sort_order'', [''desc''])]"

definition production_only :: Values where
  "production_only = [(''per_page'', [''1'']), (''metadata[env][eq]'', [''production''])]"

chapter \<open>Properties\<close>

section \<open>The transform\<close>

lemma Contains_sublist: "Contains b sub \<longleftrightarrow> sublist sub b"
  by (induction b) (auto simp: sublist_Cons_right)

lemma IsSVG_iff: "IsSVG data \<longleftrightarrow> data \<noteq> [] \<and> Contains (take 512 data) ''<svg''"
  by (auto simp: IsSVG_def Let_def)

text \<open>
  Claim C5. With fit \<open>scale-down\<close>, or a fit outside the five known modes, and with
  the source no wider and no higher than the effective target (the source's own size
  where the requested one is 0), \<open>applyFit\<close> returns the image itself, so the output
  has the size of the source.
\<close>

theorem applyFit_scale_down_keeps_fitting_image:
  assumes "Fit opts = ''scale-down''
           \<or> Fit opts \<notin> {''scale-down'', ''contain'', ''cover'', ''crop'', ''pad''}"
    and "Dx img \<le> (if Width opts = 0 then Dx img else Width opts)"
    and "Dy img \<le> (if Height opts = 0 then Dy img else Height opts)"
  shows "applyFit lib img opts = img
         \<and> Dx (applyFit lib img opts) = Dx img \<and> Dy (applyFit lib img opts) = Dy img"
proof -
  have "applyFit lib img opts = img"
    using assms by (auto simp: applyFit_def fitScaleDown_def Let_def)
  then show ?thesis by simp
qed

text \<open>
  The scenario of the specification: a 100 by 100 source under \<open>scale-down\<close> to
  width 200 stays as it is.
\<close>

theorem applyFit_scale_down_keeps_fitting_image_witness:
  "applyFit test_imaging \<lparr>Dx = 100, Dy = 100, pix = []\<rparr>
     \<lparr>Fit = ''scale-down'', Width = 200, Height = 0, Metadata = ''none''\<rparr>
   = \<lparr>Dx = 100, Dy = 100, pix = []\<rparr>"
  using applyFit_scale_down_keeps_fitting_image
    [of "\<lparr>Fit = ''scale-down'', Width = 200, Height = 0, Metadata = ''none''\<rparr>"
        "\<lparr>Dx = 100, Dy = 100, pix = []\<rparr>" test_imaging]
  by simp

text \<open>
  Claim C6. An input that \<open>IsSVG\<close> accepts, and an input that it rejects and that
  \<open>DetectFormat\<close> takes for a GIF, come back from \<open>Transform\<close> byte for byte, with the
  format \<open>svg\<close> or \<open>gif\<close>, for every variant and whatever the decoder, the resizers and
  the encoders would do.
\<close>

theorem Transform_gif_svg_passthrough:
  "(IsSVG data \<longrightarrow> Transform lib (Inr data) opts = Inr (data, ''svg''))
   \<and> (\<not> IsSVG data \<and> DetectFormat data = ''gif''
        \<longrightarrow> Transform lib (Inr data) opts = Inr (data, ''gif''))"
  by (simp add: Transform_def)

theorem Transform_gif_svg_passthrough_witness:
  "Transform test_imaging (Inr ''<svg xmlns=a></svg>'')
     \<lparr>Fit = ''cover'', Width = 10, Height = 20, Metadata = ''none''\<rparr>
     = Inr (''<svg xmlns=a></svg>'', ''svg'')
   \<and> Transform test_imaging (Inr ''GIF89a-frames'')
     \<lparr>Fit = ''cover'', Width = 10, Height = 20, Metadata = ''none''\<rparr>
     = Inr (''GIF89a-frames'', ''gif'')"
proof -
  have a: "IsSVG ''<svg xmlns=a></svg>''"
    by (simp add: IsSVG_def)
  have b: "\<not> IsSVG ''GIF89a-frames'' \<and> DetectFormat ''GIF89a-frames'' = ''gif''"
    by (simp add: IsSVG_def DetectFormat_def)
  show ?thesis
    using a b
      Transform_gif_svg_passthrough [of "''<svg xmlns=a></svg>''" test_imaging]
      Transform_gif_svg_passthrough [of "''GIF89a-frames''" test_imaging]
    by blast
qed

text \<open>
  Claim C7, as stated, asks for the substring \<open><svg>\<close>, with the closing bracket. The
  code looks for \<open><svg\<close>: an opening tag with attributes is SVG for \<open>IsSVG\<close> although
  the header holds no \<open><svg>\<close>.
\<close>

theorem IsSVG_closed_tag_counterexample:
  "IsSVG ''<svg xmlns=a></svg>'' \<and> \<not> Contains (take 512 ''<svg xmlns=a></svg>'') ''<svg>''"
  by (simp add: IsSVG_def)

text \<open>
  Claim C7, amended. A non-empty input is SVG exactly when its first 512 bytes (all of
  them if there are fewer) contain \<open><svg\<close>; and an input that is SVG is returned by
  \<open>Transform\<close> as SVG, whatever its leading bytes are.
\<close>

theorem IsSVG_open_tag_and_precedence:
  "(data \<noteq> [] \<longrightarrow> (IsSVG data \<longleftrightarrow> Contains (take 512 data) ''<svg''))
   \<and> (IsSVG data \<longrightarrow> Transform lib (Inr data) opts = Inr (data, ''svg''))"
  by (simp add: IsSVG_iff Transform_def)

text \<open>
  An input that starts with the GIF signature and holds an SVG tag is delivered as SVG.
\<close>

theorem IsSVG_open_tag_and_precedence_witness:
  "IsSVG ''GIF89a<svg>'' \<and> DetectFormat ''GIF89a<svg>'' = ''gif''
   \<and> Transform test_imaging (Inr ''GIF89a<svg>'')
        \<lparr>Fit = ''pad'', Width = 1, Height = 1, Metadata = ''none''\<rparr>
      = Inr (''GIF89a<svg>'', ''svg'')"
proof -
  have a: "''GIF89a<svg>'' \<noteq> [] \<and> Contains (take 512 ''GIF89a<svg>'') ''<svg''"
    by simp
  have b: "DetectFormat ''GIF89a<svg>'' = ''gif''"
    by (simp add: DetectFormat_def)
  show ?thesis
    using a b IsSVG_open_tag_and_precedence [of "''GIF89a<svg>''" test_imaging]
    by blast
qed

section \<open>Signed URLs\<close>

lemma fromHexChar_hextable:
  assumes "k < 16"
  shows "fromHexChar (hextable ! k) = Some k"
proof -
  have "list_all (\<lambda>k. fromHexChar (hextable ! k) = Some k) [0..<16]"
    by code_simp
  moreover have "k \<in> set [0..<16]" using assms by simp
  ultimately show ?thesis
    unfolding list_all_iff by blast
qed

lemma hex_roundtrip: "hex_DecodeString (hex_EncodeToString bs) = Some bs"
proof (induction bs)
  case Nil
  then show ?case by simp
next
  case (Cons b bs)
  have lt: "(of_char b :: nat) < 256" by simp
  then have hi: "(of_char b :: nat) div 16 < 16" by presburger
  have lo: "(of_char b :: nat) mod 16 < 16" by simp
  have "char_of ((of_char b :: nat) div 16 * 16 + (of_char b :: nat) mod 16) = b"
    by simp
  with Cons hi lo show ?case
    by (simp add: fromHexChar_hextable)
qed

lemma hex_EncodeToString_empty: "hex_EncodeToString bs = [] \<longleftrightarrow> bs = []"
  by (cases bs) simp_all

lemma verify_keys_iff:
  "verify_keys std message sig keys \<longleftrightarrow> (\<exists>k \<in> set keys. sig = hmac_sha256 std (KeyValue k) message)"
  by (induction keys) auto

lemma ParseInt_empty: "ParseInt [] = None"
  by (simp add: ParseInt_def)

text \<open>
  Claim C2. If \<open>exp\<close> parses and is not before \<open>now\<close>, and \<open>sig\<close> is the lower-case
  hex of the HMAC of the path \<open>/cdn/account/image/variant\<close> followed by the text of
  \<open>exp\<close>, under the secret of a key registered to the account (at any place in the
  table), then \<open>verifySignature\<close> returns true; the digest is not empty, as every
  HMAC-SHA256 digest has 32 bytes. And for an account without keys it returns false on
  every request.
\<close>

theorem verifySignature_accepts_registered_key:
  "(key \<in> set (signing_keys (DB h)) \<and> KeyAccountID key = accountID
      \<and> Values_Get query ''exp'' = expStr \<and> ParseInt expStr = Some expUnix \<and> now \<le> expUnix
      \<and> hmac_sha256 std (KeyValue key)
           ((''/cdn/'' @ accountID @ ''/'' @ imageID @ ''/'' @ variantName) @ expStr) \<noteq> []
      \<and> Values_Get query ''sig''
           = signURL std (KeyValue key)
               (''/cdn/'' @ accountID @ ''/'' @ imageID @ ''/'' @ variantName) expStr
     \<longrightarrow> verifySignature std now h query accountID imageID variantName)
   \<and> ((\<forall>k \<in> set (signing_keys (DB h)). KeyAccountID k \<noteq> accountID)
     \<longrightarrow> \<not> verifySignature std now h query accountID imageID variantName)"
proof (intro conjI impI)
  assume a: "key \<in> set (signing_keys (DB h)) \<and> KeyAccountID key = accountID
      \<and> Values_Get query ''exp'' = expStr \<and> ParseInt expStr = Some expUnix \<and> now \<le> expUnix
      \<and> hmac_sha256 std (KeyValue key)
           ((''/cdn/'' @ accountID @ ''/'' @ imageID @ ''/'' @ variantName) @ expStr) \<noteq> []
      \<and> Values_Get query ''sig''
           = signURL std (KeyValue key)
               (''/cdn/'' @ accountID @ ''/'' @ imageID @ ''/'' @ variantName) expStr"
  define path where "path = ''/cdn/'' @ accountID @ ''/'' @ imageID @ ''/'' @ variantName"
  define d where "d = hmac_sha256 std (KeyValue key) (path @ expStr)"
  define keys where
    "keys = sort_key KeyName (filter (\<lambda>k. KeyAccountID k = accountID) (signing_keys (DB h)))"
  from a have sig: "Values_Get query ''sig'' = hex_EncodeToString d"
    by (simp add: signURL_def d_def path_def)
  from a have dne: "d \<noteq> []" by (simp add: d_def path_def)
  from a have exp_ne: "expStr \<noteq> []" using ParseInt_empty by auto
  from a have mem: "key \<in> set keys" by (simp add: keys_def)
  then have kne: "keys \<noteq> []" by auto
  have loop: "verify_keys std (path @ expStr) d keys"
    unfolding verify_keys_iff using mem d_def by blast
  have lk: "ListSigningKeys (DB h) accountID = Inr keys"
    by (simp add: ListSigningKeys_def keys_def)
  from a have expq: "Values_Get query ''exp'' = expStr"
    and pi: "ParseInt expStr = Some expUnix" and le: "now \<le> expUnix"
    by simp_all
  show "verifySignature std now h query accountID imageID variantName"
    unfolding verifySignature_def Let_def
    using dne exp_ne kne loop le
    by (simp add: sig expq pi lk hex_roundtrip hex_EncodeToString_empty path_def)
next
  assume "\<forall>k \<in> set (signing_keys (DB h)). KeyAccountID k \<noteq> accountID"
  then have "filter (\<lambda>k. KeyAccountID k = accountID) (signing_keys (DB h)) = []"
    by (simp add: filter_empty_conv)
  then have "ListSigningKeys (DB h) accountID = Inr []"
    by (simp add: ListSigningKeys_def)
  then show "\<not> verifySignature std now h query accountID imageID variantName"
    by (simp add: verifySignature_def Let_def split: option.splits)
qed

theorem verifySignature_accepts_registered_key_witness:
  "verifySignature test_stdlib 1700000000 test_handler
     [(''sig'', [signURL test_stdlib ''test-secret-key-value'' ''/cdn/acct-1/img-a/thumb''
                   ''2000000000'']),
      (''exp'', [''2000000000''])]
     ''acct-1'' ''img-a'' ''thumb''
   \<and> \<not> verifySignature test_stdlib 1700000000 test_handler
     [(''sig'', [signURL test_stdlib ''test-secret-key-value'' ''/cdn/acct-3/img-a/thumb''
                   ''2000000000'']),
      (''exp'', [''2000000000''])]
     ''acct-3'' ''img-a'' ''thumb''"
proof -
  let ?key = "\<lparr>KeyName = ''key1'', KeyValue = ''test-secret-key-value'', KeyAccountID = ''acct-1'',
               CreatedAt = ''2024-01-01T00:00:00Z''\<rparr>"
  let ?q = "[(''sig'', [signURL test_stdlib ''test-secret-key-value'' ''/cdn/acct-1/img-a/thumb''
                   ''2000000000'']),
      (''exp'', [''2000000000''])]"
  have p: "ParseInt ''2000000000'' = Some 2000000000"
    by (simp add: ParseInt_def isDigit_def)
  have a: "?key \<in> set (signing_keys (DB test_handler)) \<and> KeyAccountID ?key = ''acct-1''
      \<and> Values_Get ?q ''exp'' = ''2000000000'' \<and> ParseInt ''2000000000'' = Some 2000000000
      \<and> (1700000000::int) \<le> 2000000000
      \<and> hmac_sha256 test_stdlib (KeyValue ?key)
           ((''/cdn/'' @ ''acct-1'' @ ''/'' @ ''img-a'' @ ''/'' @ ''thumb'') @ ''2000000000'') \<noteq> []
      \<and> Values_Get ?q ''sig''
           = signURL test_stdlib (KeyValue ?key)
               (''/cdn/'' @ ''acct-1'' @ ''/'' @ ''img-a'' @ ''/'' @ ''thumb'') ''2000000000''"
    using p by (simp add: test_handler_def test_db_def Values_Get_def test_stdlib_def)
  have b: "\<forall>k \<in> set (signing_keys (DB test_handler)). KeyAccountID k \<noteq> ''acct-3''"
    by (simp add: test_handler_def test_db_def)
  show ?thesis
    using a b
      verifySignature_accepts_registered_key
        [where key = ?key and h = test_handler and accountID = "''acct-1''" and query = ?q
           and expStr = "''2000000000''" and expUnix = 2000000000 and now = 1700000000
           and std = test_stdlib and imageID = "''img-a''" and variantName = "''thumb''"]
      verifySignature_accepts_registered_key
        [where h = test_handler and accountID = "''acct-3''" and now = 1700000000
           and std = test_stdlib and imageID = "''img-a''" and variantName = "''thumb''"]
    by simp
qed

text \<open>
  Claim C3. \<open>verifySignature\<close> returns false when \<open>sig\<close> or \<open>exp\<close> is absent or
  empty, when \<open>exp\<close> is no decimal integer, when it is before \<open>now\<close>, and when \<open>sig\<close>
  is no hex string, whatever the signing keys are.
\<close>

theorem verifySignature_denies_malformed:
  assumes "map_of query ''sig'' = None \<or> Values_Get query ''sig'' = []
           \<or> map_of query ''exp'' = None \<or> Values_Get query ''exp'' = []
           \<or> ParseInt (Values_Get query ''exp'') = None
           \<or> (\<exists>expUnix. ParseInt (Values_Get query ''exp'') = Some expUnix \<and> expUnix < now)
           \<or> hex_DecodeString (Values_Get query ''sig'') = None"
  shows "\<not> verifySignature std now h query accountID imageID variantName"
  using assms
  by (auto simp: verifySignature_def Let_def Values_Get_def split: option.splits)

theorem verifySignature_denies_malformed_witness:
  "\<not> verifySignature test_stdlib 1700000000 test_handler
       [(''sig'', [''zz'']), (''exp'', [''2000000000''])] ''acct-1'' ''img-a'' ''thumb''
   \<and> \<not> verifySignature test_stdlib 1700000000 test_handler
       [(''sig'', [''00ff'']), (''exp'', [''1600000000''])] ''acct-1'' ''img-a'' ''thumb''"
proof -
  have a: "hex_DecodeString (Values_Get [(''sig'', [''zz'']), (''exp'', [''2000000000''])] ''sig'') = None"
    by (simp add: Values_Get_def fromHexChar_def)
  have b: "ParseInt (Values_Get [(''sig'', [''00ff'']), (''exp'', [''1600000000''])] ''exp'')
             = Some 1600000000 \<and> (1600000000::int) < 1700000000"
    by (simp add: Values_Get_def ParseInt_def isDigit_def)
  show ?thesis
    using a b
      verifySignature_denies_malformed
        [where query = "[(''sig'', [''zz'']), (''exp'', [''2000000000''])]" and now = 1700000000]
      verifySignature_denies_malformed
        [where query = "[(''sig'', [''00ff'']), (''exp'', [''1600000000''])]" and now = 1700000000]
    by blast
qed

section \<open>Delivery\<close>

lemma deliver_original_status:
  "status (fst (deliver_original lib h accountID imageID variant calls)) \<noteq> 403"
  by (simp add: deliver_original_def http_Error_def split: sum.splits prod.splits)

lemma deliver_original_calls:
  "set (snd (deliver_original lib h accountID imageID variant calls))
     \<subseteq> set calls \<union> {CallRetrieve, CallTransform}
   \<and> CallRetrieve \<in> set (snd (deliver_original lib h accountID imageID variant calls))"
  by (auto simp: deliver_original_def split: sum.splits prod.splits)

lemma deliver_original_response:
  "fst (deliver_original lib h accountID imageID variant calls)
     = fst (deliver_original lib h accountID imageID variant calls')"
  by (simp add: deliver_original_def split: sum.splits prod.splits)

text \<open>
  Claim C4. For a request whose image and variant resolve, \<open>DeliverImage\<close> calls
  \<open>verifySignature\<close> exactly when enforcement is on, the image requires signed URLs
  and the variant does not waive them. When one of the three fails, the handler is the
  retrieval and transformation alone, it does retrieve, and its status is not 403.
  When all three hold, the verifier decides: if it returns false the response is the
  403 \<open>forbidden\<close> and nothing is retrieved, and if it returns true the response is
  that of the retrieval and transformation alone. So the status is 403 exactly when the
  three hold and the verifier returns false.
\<close>

theorem DeliverImage_consults_verifier_iff_gate:
  assumes "GetImage std (DB h) accountID imageID = Inr img"
    and "GetVariant (DB h) accountID variantName = Inr variant"
  shows "(CallVerifySignature \<in> set (snd (DeliverImage lib std now h query accountID imageID variantName))
           \<longleftrightarrow> EnforceSignedURLs (Config h) \<and> RequireSignedURLs img
                \<and> \<not> NeverRequireSignedURLs variant)
         \<and> (\<not> (EnforceSignedURLs (Config h) \<and> RequireSignedURLs img
                  \<and> \<not> NeverRequireSignedURLs variant)
              \<longrightarrow> DeliverImage lib std now h query accountID imageID variantName
                    = deliver_original lib h accountID imageID variant [CallGetImage, CallGetVariant]
                  \<and> CallRetrieve \<in> set (snd (DeliverImage lib std now h query accountID imageID variantName))
                  \<and> status (fst (DeliverImage lib std now h query accountID imageID variantName)) \<noteq> 403)
         \<and> (EnforceSignedURLs (Config h) \<and> RequireSignedURLs img
              \<and> \<not> NeverRequireSignedURLs variant
              \<and> \<not> verifySignature std now h query accountID imageID variantName
              \<longrightarrow> DeliverImage lib std now h query accountID imageID variantName
                    = (http_Error ''forbidden'' 403,
                       [CallGetImage, CallGetVariant, CallVerifySignature]))
         \<and> (EnforceSignedURLs (Config h) \<and> RequireSignedURLs img
              \<and> \<not> NeverRequireSignedURLs variant
              \<and> verifySignature std now h query accountID imageID variantName
              \<longrightarrow> DeliverImage lib std now h query accountID imageID variantName
                    = deliver_original lib h accountID imageID variant
                        [CallGetImage, CallGetVariant, CallVerifySignature]
                  \<and> fst (DeliverImage lib std now h query accountID imageID variantName)
                    = fst (deliver_original lib h accountID imageID variant
                             [CallGetImage, CallGetVariant]))
         \<and> (status (fst (DeliverImage lib std now h query accountID imageID variantName)) = 403
              \<longleftrightarrow> EnforceSignedURLs (Config h) \<and> RequireSignedURLs img
                  \<and> \<not> NeverRequireSignedURLs variant
                  \<and> \<not> verifySignature std now h query accountID imageID variantName)"
proof (cases "EnforceSignedURLs (Config h) \<and> RequireSignedURLs img \<and> \<not> NeverRequireSignedURLs variant")
  case gate: True
  show ?thesis
  proof (cases "verifySignature std now h query accountID imageID variantName")
    case True
    with gate have eq: "DeliverImage lib std now h query accountID imageID variantName
                    = deliver_original lib h accountID imageID variant
                        [CallGetImage, CallGetVariant, CallVerifySignature]"
      using assms by (simp add: DeliverImage_def)
    have "CallVerifySignature \<in> set (snd (deliver_original lib h accountID imageID variant
                                             [CallGetImage, CallGetVariant, CallVerifySignature]))"
      by (simp add: deliver_original_def split: sum.splits prod.splits)
    with gate True eq show ?thesis
      using deliver_original_status
        deliver_original_response [of lib h accountID imageID variant
          "[CallGetImage, CallGetVariant, CallVerifySignature]" "[CallGetImage, CallGetVariant]"]
      by simp
  next
    case False
    with gate have eq: "DeliverImage lib std now h query accountID imageID variantName
                    = (http_Error ''forbidden'' 403,
                       [CallGetImage, CallGetVariant, CallVerifySignature])"
      using assms by (simp add: DeliverImage_def)
    with gate False show ?thesis
      by (simp add: http_Error_def)
  qed
next
  case False
  then have eq: "DeliverImage lib std now h query accountID imageID variantName
                    = deliver_original lib h accountID imageID variant [CallGetImage, CallGetVariant]"
    using assms by (auto simp: DeliverImage_def)
  have "CallVerifySignature \<notin> set (snd (deliver_original lib h accountID imageID variant [CallGetImage, CallGetVariant]))"
    using deliver_original_calls [of lib h accountID imageID variant "[CallGetImage, CallGetVariant]"]
    by auto
  with False eq show ?thesis
    using deliver_original_status [of lib h accountID imageID variant "[CallGetImage, CallGetVariant]"]
      deliver_original_calls [of lib h accountID imageID variant "[CallGetImage, CallGetVariant]"]
    by simp blast
qed

text \<open>
  On the test handler, which enforces signed URLs, for the image \<open>img-a\<close> that
  requires them: the variant \<open>thumb\<close> without a signature is forbidden, with the
  signature of the registered key it is delivered as the stored GIF, and the variant
  \<open>public\<close>, which waives signatures, is delivered without one.
\<close>

theorem DeliverImage_consults_verifier_iff_gate_witness:
  "DeliverImage test_imaging test_stdlib 1700000000 test_handler [] ''acct-1'' ''img-a'' ''thumb''
     = (http_Error ''forbidden'' 403, [CallGetImage, CallGetVariant, CallVerifySignature])
   \<and> DeliverImage test_imaging test_stdlib 1700000000 test_handler
       [(''sig'', [signURL test_stdlib ''test-secret-key-value'' ''/cdn/acct-1/img-a/thumb''
                     ''2000000000'']),
        (''exp'', [''2000000000''])]
       ''acct-1'' ''img-a'' ''thumb''
     = (\<lparr>status = 200, content_type = ''image/gif'', body = ''GIF89a-frames''\<rparr>,
        [CallGetImage, CallGetVariant, CallVerifySignature, CallRetrieve, CallTransform])
   \<and> DeliverImage test_imaging test_stdlib 1700000000 test_handler [] ''acct-1'' ''img-a'' ''public''
     = (\<lparr>status = 200, content_type = ''image/gif'', body = ''GIF89a-frames''\<rparr>,
        [CallGetImage, CallGetVariant, CallRetrieve, CallTransform])"
proof -
  let ?img = "test_image ''acct-1'' ''img-a'' ''2024-01-01T00:00:00Z'' True"
  let ?thumb = "\<lparr>VariantID = ''thumb'', VariantAccountID = ''acct-1'',
                 Options = \<lparr>Fit = ''scale-down'', Width = 100, Height = 100, Metadata = ''none''\<rparr>,
                 NeverRequireSignedURLs = False\<rparr>"
  let ?public = "\<lparr>VariantID = ''public'', VariantAccountID = ''acct-1'',
                 Options = \<lparr>Fit = ''cover'', Width = 50, Height = 80, Metadata = ''none''\<rparr>,
                 NeverRequireSignedURLs = True\<rparr>"
  let ?signed = "[(''sig'', [signURL test_stdlib ''test-secret-key-value'' ''/cdn/acct-1/img-a/thumb''
                     ''2000000000'']),
        (''exp'', [''2000000000''])]"
  have i: "GetImage test_stdlib (DB test_handler) ''acct-1'' ''img-a'' = Inr ?img"
    by (simp add: GetImage_def scanImage_def test_handler_def test_db_def test_image_def)
  have v: "GetVariant (DB test_handler) ''acct-1'' ''thumb'' = Inr ?thumb"
    by (simp add: GetVariant_def test_handler_def test_db_def)
  have p: "GetVariant (DB test_handler) ''acct-1'' ''public'' = Inr ?public"
    by (simp add: GetVariant_def test_handler_def test_db_def)
  have g: "EnforceSignedURLs (Config test_handler) \<and> RequireSignedURLs ?img"
    by (simp add: test_handler_def test_image_def)
  have no: "\<not> verifySignature test_stdlib 1700000000 test_handler [] ''acct-1'' ''img-a'' ''thumb''"
    by (simp add: verifySignature_def Values_Get_def)
  have yes: "verifySignature test_stdlib 1700000000 test_handler ?signed ''acct-1'' ''img-a'' ''thumb''"
    by code_simp
  have d1: "deliver_original test_imaging test_handler ''acct-1'' ''img-a'' ?thumb
              [CallGetImage, CallGetVariant, CallVerifySignature]
            = (\<lparr>status = 200, content_type = ''image/gif'', body = ''GIF89a-frames''\<rparr>,
               [CallGetImage, CallGetVariant, CallVerifySignature, CallRetrieve, CallTransform])"
    by code_simp
  have d2: "deliver_original test_imaging test_handler ''acct-1'' ''img-a'' ?public
              [CallGetImage, CallGetVariant]
            = (\<lparr>status = 200, content_type = ''image/gif'', body = ''GIF89a-frames''\<rparr>,
               [CallGetImage, CallGetVariant, CallRetrieve, CallTransform])"
    by code_simp
  have a: "DeliverImage test_imaging test_stdlib 1700000000 test_handler [] ''acct-1'' ''img-a'' ''thumb''
     = (http_Error ''forbidden'' 403, [CallGetImage, CallGetVariant, CallVerifySignature])"
    using g no DeliverImage_consults_verifier_iff_gate [OF i v, of test_imaging 1700000000 "[]"]
    by simp
  have b: "DeliverImage test_imaging test_stdlib 1700000000 test_handler ?signed
             ''acct-1'' ''img-a'' ''thumb''
           = deliver_original test_imaging test_handler ''acct-1'' ''img-a'' ?thumb
              [CallGetImage, CallGetVariant, CallVerifySignature]"
    using g yes DeliverImage_consults_verifier_iff_gate [OF i v, of test_imaging 1700000000 ?signed]
    by simp
  have c: "DeliverImage test_imaging test_stdlib 1700000000 test_handler [] ''acct-1'' ''img-a'' ''public''
           = deliver_original test_imaging test_handler ''acct-1'' ''img-a'' ?public
              [CallGetImage, CallGetVariant]"
    using DeliverImage_consults_verifier_iff_gate [OF i p, of test_imaging 1700000000 "[]"]
    by simp
  show ?thesis
    using a b c d1 d2 by simp
qed

section \<open>Signing keys\<close>








section \<open>The V2 listing\<close>

lemma page_result_Inr:
  "page_result std xs perPage = Inr (imgs, next)
     \<Longrightarrow> imgs = xs \<and> (next \<noteq> [] \<longleftrightarrow> int (length imgs) = perPage)"
  by (auto simp: page_result_def split: if_splits)

lemma ListImagesV2_Inr:
  assumes "ListImagesV2 std db accountID cursor perPage sortOrder = Inr res"
  shows "\<exists>xs. page_result std xs perPage = Inr res"
  using assms unfolding ListImagesV2_def Let_def
  by (auto split: sum.splits if_splits option.splits)

lemma ListImagesWithFilter_Inr:
  assumes "ListImagesWithFilter std db accountID cursor perPage sortOrder key op val = Inr res"
  shows "\<exists>xs. page_result std xs perPage = Inr res"
  using assms unfolding ListImagesWithFilter_def Let_def
  by (auto split: sum.splits if_splits option.splits)

lemma Handler_ListImagesV2_cursor_iff_full:
  assumes "Handler_ListImagesV2 std db accountID q = ApiSuccess (imgs, next)"
  shows "next \<noteq> [] \<longleftrightarrow> int (length imgs) = parsePerPage q"
proof -
  from assms obtain r where l: "list_response r = ApiSuccess (imgs, next)"
    and r: "r = ListImagesV2 std db accountID (Values_Get q ''continuation_token'') (parsePerPage q) (parseSortOrder q)
          \<or> (\<exists>key op val. r = ListImagesWithFilter std db accountID (Values_Get q ''continuation_token'') (parsePerPage q) (parseSortOrder q) key op val)"
    by (auto simp: Handler_ListImagesV2_def Let_def BadRequest_def split: sum.splits if_splits)
  from l have e: "r = Inr (imgs, next)"
    by (auto simp: list_response_def split: sum.splits fault.splits)
  from r e obtain xs where "page_result std xs (parsePerPage q) = Inr (imgs, next)"
    using ListImagesV2_Inr ListImagesWithFilter_Inr by metis
  from page_result_Inr [OF this] show ?thesis by simp
qed

text \<open>
  Claim C8. A call of \<open>ListImagesV2\<close> or of \<open>ListImagesWithFilter\<close> that succeeds
  returns a non-empty next cursor exactly when the page has \<open>perPage\<close> images; so does
  the handler, for the page size that it passes on.
\<close>

theorem next_cursor_iff_full_page:
  "(ListImagesV2 std db accountID cursor perPage sortOrder = Inr (imgs, next)
      \<longrightarrow> (next \<noteq> [] \<longleftrightarrow> int (length imgs) = perPage))
   \<and> (ListImagesWithFilter std db accountID cursor perPage sortOrder key op val = Inr (imgs, next)
      \<longrightarrow> (next \<noteq> [] \<longleftrightarrow> int (length imgs) = perPage))
   \<and> (Handler_ListImagesV2 std db accountID q = ApiSuccess (imgs, next)
      \<longrightarrow> (next \<noteq> [] \<longleftrightarrow> int (length imgs) = parsePerPage q))"
proof (intro conjI impI)
  assume a: "ListImagesV2 std db accountID cursor perPage sortOrder = Inr (imgs, next)"
  from ListImagesV2_Inr [OF a] obtain xs where "page_result std xs perPage = Inr (imgs, next)" ..
  from page_result_Inr [OF this] show "next \<noteq> [] \<longleftrightarrow> int (length imgs) = perPage"
    by simp
next
  assume a: "ListImagesWithFilter std db accountID cursor perPage sortOrder key op val
               = Inr (imgs, next)"
  from ListImagesWithFilter_Inr [OF a] obtain xs where "page_result std xs perPage = Inr (imgs, next)" ..
  from page_result_Inr [OF this] show "next \<noteq> [] \<longleftrightarrow> int (length imgs) = perPage"
    by simp
next
  assume "Handler_ListImagesV2 std db accountID q = ApiSuccess (imgs, next)"
  then show "next \<noteq> [] \<longleftrightarrow> int (length imgs) = parsePerPage q"
    by (rule Handler_ListImagesV2_cursor_iff_full)
qed

theorem next_cursor_iff_full_page_witness:
  "ListImagesV2 test_stdlib test_db ''acct-1'' [] 2 ''asc''
     = Inr ([test_image ''acct-1'' ''img-a'' ''2024-01-01T00:00:00Z'' True,
             test_image ''acct-1'' ''img-b'' ''2024-01-01T00:00:00Z'' False],
            ''2024-01-01T00:00:00Z|img-b'')
   \<and> (''2024-01-01T00:00:00Z|img-b'' \<noteq> []
        \<longleftrightarrow> int (length [test_image ''acct-1'' ''img-a'' ''2024-01-01T00:00:00Z'' True,
                                test_image ''acct-1'' ''img-b'' ''2024-01-01T00:00:00Z'' False]) = 2)"
proof -
  have a: "ListImagesV2 test_stdlib test_db ''acct-1'' [] 2 ''asc''
     = Inr ([test_image ''acct-1'' ''img-a'' ''2024-01-01T00:00:00Z'' True,
             test_image ''acct-1'' ''img-b'' ''2024-01-01T00:00:00Z'' False],
            ''2024-01-01T00:00:00Z|img-b'')"
    by code_simp
  show ?thesis
    using a next_cursor_iff_full_page
      [where std = test_stdlib and db = test_db and accountID = "''acct-1''" and cursor = "[]"
         and perPage = 2 and sortOrder = "''asc''"
         and imgs = "[test_image ''acct-1'' ''img-a'' ''2024-01-01T00:00:00Z'' True,
                      test_image ''acct-1'' ''img-b'' ''2024-01-01T00:00:00Z'' False]"
         and ?next = "''2024-01-01T00:00:00Z|img-b''"]
    by blast
qed

subsection \<open>Several metadata filters\<close>

lemma loop_supported:
  "\<forall>e \<in> set q. \<forall>op. parse_param e \<noteq> Unsupported op
     \<Longrightarrow> parseMetadataFilters_loop q fs = Inr (fs @ filters_of q)"
proof (induction q arbitrary: fs)
  case Nil
  then show ?case by (simp add: filters_of_def)
next
  case (Cons e q)
  then show ?case
    by (cases "parse_param e") (auto simp: filters_of_def)
qed

lemma loop_Inr_supported:
  "parseMetadataFilters_loop q fs = Inr r \<Longrightarrow> \<forall>e \<in> set q. \<forall>op. parse_param e \<noteq> Unsupported op"
proof (induction q arbitrary: fs)
  case Nil
  then show ?case by simp
next
  case (Cons e q)
  then show ?case
    by (cases "parse_param e") auto
qed

lemma parseMetadataFilters_Inr_iff:
  "parseMetadataFilters q = Inr fs
     \<longleftrightarrow> (\<forall>e \<in> set q. \<forall>op. parse_param e \<noteq> Unsupported op) \<and> fs = filters_of q"
  unfolding parseMetadataFilters_def
  using loop_supported [of q "[]"] loop_Inr_supported [of q "[]" fs]
  by auto

lemma filters_of_Cons_Parsed:
  "parse_param e = Parsed f \<Longrightarrow> filters_of (e # q) = f # filters_of q"
  by (simp add: filters_of_def)

lemma mset_filters_of_remove1:
  "e \<in> set q \<Longrightarrow> parse_param e = Parsed f
     \<Longrightarrow> mset (filters_of q) = add_mset f (mset (filters_of (remove1 e q)))"
proof (induction q)
  case Nil
  then show ?case by simp
next
  case (Cons x q)
  show ?case
  proof (cases "x = e")
    case True
    with Cons.prems show ?thesis by (simp add: filters_of_def)
  next
    case False
    with Cons.prems have "e \<in> set q" by simp
    from Cons.IH [OF this Cons.prems(2)] False show ?thesis
      by (cases "parse_param x") (simp_all add: filters_of_def)
  qed
qed

lemma in_filters_of:
  "f \<in> set (filters_of q) \<Longrightarrow> \<exists>e \<in> set q. parse_param e = Parsed f"
  by (auto simp: filters_of_def split: parsed_param.splits)

lemma parse_param_Parsed_name:
  assumes "parse_param (param, vals) = Parsed f"
  shows "param = ''metadata['' @ Key f @ '']['' @ Op f @ '']''"
proof -
  define rest where "rest = drop (length ''metadata['') param"
  define rest2 where "rest2 = tl (dropWhile (\<lambda>c. c \<noteq> CHR '']'') rest)"
  from assms have p: "prefix ''metadata['' param" and br: "CHR '']'' \<in> set rest"
    and p2: "prefix ''['' rest2" and s2: "suffix '']'' rest2"
    and k: "Key f = takeWhile (\<lambda>c. c \<noteq> CHR '']'') rest" and o: "Op f = butlast (tl rest2)"
    unfolding parse_param_def Let_def rest_def rest2_def
    by (auto split: if_splits)
  from p have a: "param = ''metadata['' @ rest"
    unfolding rest_def by (metis append_eq_conv_conj prefixE)
  from br have ne: "dropWhile (\<lambda>c. c \<noteq> CHR '']'') rest \<noteq> []"
    by simp
  then have "hd (dropWhile (\<lambda>c. c \<noteq> CHR '']'') rest) = CHR '']''"
    using hd_dropWhile [of "\<lambda>c. c \<noteq> CHR '']''" rest] by simp
  with ne have d: "dropWhile (\<lambda>c. c \<noteq> CHR '']'') rest = CHR '']'' # rest2"
    unfolding rest2_def by (metis list.collapse)
  have b: "rest = Key f @ CHR '']'' # rest2"
    using takeWhile_dropWhile_id [of "\<lambda>c. c \<noteq> CHR '']''" rest] d k by simp
  from p2 obtain t where t: "rest2 = CHR ''['' # t" by (auto simp: prefix_def)
  from s2 obtain u where u: "rest2 = u @ '']''" by (auto simp: suffix_def)
  from t u have "t \<noteq> []" by (cases u) auto
  with t u have "t = butlast t @ '']''"
    by (metis append_butlast_last_id last_ConsR last_snoc)
  with t o have c: "rest2 = CHR ''['' # Op f @ '']''" by simp
  from a b c show ?thesis by simp
qed

lemma distinct_filters_of:
  "distinct (map fst q) \<Longrightarrow> distinct (map (\<lambda>f. (Key f, Op f)) (filters_of q))"
proof (induction q)
  case Nil
  then show ?case by (simp add: filters_of_def)
next
  case (Cons e q)
  show ?case
  proof (cases "parse_param e")
    case (Parsed f)
    have "(Key f, Op f) \<notin> (\<lambda>f. (Key f, Op f)) ` set (filters_of q)"
    proof
      assume "(Key f, Op f) \<in> (\<lambda>f. (Key f, Op f)) ` set (filters_of q)"
      then obtain g where g: "g \<in> set (filters_of q)" "Key g = Key f" "Op g = Op f" by auto
      from in_filters_of [OF g(1)] obtain e' where e': "e' \<in> set q" "parse_param e' = Parsed g"
        by blast
      have "fst e' = fst e"
        using parse_param_Parsed_name [of "fst e'" "snd e'" g]
              parse_param_Parsed_name [of "fst e" "snd e" f] e'(2) Parsed g(2,3)
        by simp
      moreover from e'(1) have "fst e' \<in> fst ` set q" by simp
      ultimately show False using Cons.prems by simp
    qed
    with Cons Parsed show ?thesis
      by (simp add: filters_of_Cons_Parsed)
  next
    case Skipped
    with Cons show ?thesis by (simp add: filters_of_def)
  next
    case (Unsupported op)
    with Cons show ?thesis by (simp add: filters_of_def)
  qed
qed

text \<open>
  The parameters that carry a filter: \<open>metadata[key][op]\<close> with a key free of closing
  brackets, one of the six operators and at least one value.
\<close>

lemma parse_param_well_formed:
  assumes "CHR '']'' \<notin> set key"
    and "op \<in> {''eq'', ''ne'', ''lt'', ''gt'', ''lte'', ''gte''}"
  shows "parse_param (''metadata['' @ key @ '']['' @ op @ '']'', v # vs)
           = Parsed \<lparr>Key = key, Op = op, Value = v\<rparr>"
proof -
  have tw: "takeWhile (\<lambda>c. c \<noteq> CHR '']'') (key @ CHR '']'' # rest) = key
            \<and> dropWhile (\<lambda>c. c \<noteq> CHR '']'') (key @ CHR '']'' # rest) = CHR '']'' # rest" for rest
    using assms(1) by (induction key) auto
  have sf: "suffix '']'' (CHR ''['' # op @ '']'')"
    by (simp add: suffix_def)
  show ?thesis
    using assms(2) tw [of "CHR ''['' # op @ '']''"] sf
    by (auto simp: parse_param_def Let_def butlast_append)
qed

text \<open>
  Claim C9. Take a request whose metadata parameters all parse (none has an
  unsupported operator) into more than one filter. With more than five filters the
  handler answers with the bad-request error, whatever the database holds. With two to
  five, its response is that of \<open>ListImagesWithFilter\<close> for the first filter in the
  order of the iteration alone. Every one of the filters is the first one for some
  order of the same entries, and for distinct parameter names the filters differ in key
  or operator: the request does not determine which filter is applied.
\<close>

theorem ListImagesV2_applies_one_of_several_filters:
  assumes fl: "parseMetadataFilters q = Inr fs" and many: "1 < length fs"
  shows "(5 < length fs \<longrightarrow>
            Handler_ListImagesV2 std db accountID q
              = BadRequest ''too many metadata filters (max 5)'')
         \<and> (length fs \<le> 5 \<longrightarrow>
              hd fs \<in> set fs
              \<and> Handler_ListImagesV2 std db accountID q
                  = list_response
                      (ListImagesWithFilter std db accountID (Values_Get q ''continuation_token'')
                         (parsePerPage q) (parseSortOrder q)
                         (Key (hd fs)) (Op (hd fs)) (Value (hd fs))))
         \<and> (\<forall>f \<in> set fs. \<exists>q' fs'. mset q' = mset q
                  \<and> parseMetadataFilters q' = Inr (f # fs') \<and> mset (f # fs') = mset fs)
         \<and> (distinct (map fst q) \<longrightarrow> distinct (map (\<lambda>f. (Key f, Op f)) fs))"
proof (intro conjI impI ballI)
  assume "5 < length fs"
  with fl show "Handler_ListImagesV2 std db accountID q
                  = BadRequest ''too many metadata filters (max 5)''"
    by (simp add: Handler_ListImagesV2_def Let_def)
next
  assume "length fs \<le> 5"
  from many show "hd fs \<in> set fs" by (cases fs) auto
next
  assume "length fs \<le> 5"
  with fl many show "Handler_ListImagesV2 std db accountID q
                  = list_response
                      (ListImagesWithFilter std db accountID (Values_Get q ''continuation_token'')
                         (parsePerPage q) (parseSortOrder q)
                         (Key (hd fs)) (Op (hd fs)) (Value (hd fs)))"
    by (cases fs) (simp_all add: Handler_ListImagesV2_def Let_def)
next
  fix f
  assume f: "f \<in> set fs"
  from fl have sup: "\<forall>e \<in> set q. \<forall>op. parse_param e \<noteq> Unsupported op"
    and fs: "fs = filters_of q"
    by (simp_all add: parseMetadataFilters_Inr_iff)
  from f fs in_filters_of obtain e where e: "e \<in> set q" "parse_param e = Parsed f"
    by blast
  let ?q = "e # remove1 e q"
  from e(1) have m: "mset ?q = mset q" by simp
  then have "set ?q = set q" by (rule mset_eq_setD)
  with sup have "\<forall>e \<in> set ?q. \<forall>op. parse_param e \<noteq> Unsupported op" by blast
  then have p: "parseMetadataFilters ?q = Inr (f # filters_of (remove1 e q))"
    using e(2) by (simp add: parseMetadataFilters_Inr_iff filters_of_Cons_Parsed)
  have "mset (f # filters_of (remove1 e q)) = mset fs"
    using mset_filters_of_remove1 [OF e] fs by simp
  with m p show "\<exists>q' fs'. mset q' = mset q
                  \<and> parseMetadataFilters q' = Inr (f # fs') \<and> mset (f # fs') = mset fs"
    by blast
next
  assume "distinct (map fst q)"
  with fl show "distinct (map (\<lambda>f. (Key f, Op f)) fs)"
    by (simp add: parseMetadataFilters_Inr_iff distinct_filters_of)
qed

text \<open>
  The same entries in two orders: first the filter on \<open>env\<close> is applied, then the one
  on \<open>team\<close>.
\<close>

theorem ListImagesV2_applies_one_of_several_filters_witness:
  "Handler_ListImagesV2 test_stdlib test_db ''acct-1'' two_filters
     = list_response (ListImagesWithFilter test_stdlib test_db ''acct-1'' [] 2 ''asc''
                        ''env'' ''eq'' ''production'')
   \<and> Handler_ListImagesV2 test_stdlib test_db ''acct-1'' (rev two_filters)
     = list_response (ListImagesWithFilter test_stdlib test_db ''acct-1'' [] 2 ''asc''
                        ''team'' ''eq'' ''web'')"
proof -
  let ?env = "\<lparr>Key = ''env'', Op = ''eq'', Value = ''production''\<rparr>"
  let ?team = "\<lparr>Key = ''team'', Op = ''eq'', Value = ''web''\<rparr>"
  have a: "parseMetadataFilters two_filters = Inr [?env, ?team]"
    by code_simp
  have b: "parseMetadataFilters (rev two_filters) = Inr [?team, ?env]"
    by code_simp
  have c: "Values_Get two_filters ''continuation_token'' = []
           \<and> parsePerPage two_filters = 2 \<and> parseSortOrder two_filters = ''asc''"
    by code_simp
  have d: "Values_Get (rev two_filters) ''continuation_token'' = []
           \<and> parsePerPage (rev two_filters) = 2 \<and> parseSortOrder (rev two_filters) = ''asc''"
    by code_simp
  have l: "1 < length [?env, ?team] \<and> length [?env, ?team] \<le> 5
           \<and> 1 < length [?team, ?env] \<and> length [?team, ?env] \<le> 5"
    by simp
  show ?thesis
    using c d l
      ListImagesV2_applies_one_of_several_filters [OF a, of test_stdlib test_db "''acct-1''"]
      ListImagesV2_applies_one_of_several_filters [OF b, of test_stdlib test_db "''acct-1''"]
    by simp
qed

text \<open>
  With at most one filter the order of the iteration is immaterial: the handler answers
  a query and any rearrangement of its entries alike.
\<close>

lemma mset_filters_of:
  "mset q' = mset q \<Longrightarrow> mset (filters_of q') = mset (filters_of q)"
proof -
  assume a: "mset q' = mset q"
  let ?h = "\<lambda>e. case parse_param e of Parsed f \<Rightarrow> [f] | _ \<Rightarrow> []"
  have "mset (filters_of x) = sum_mset (image_mset (mset \<circ> ?h) (mset x))" for x
    by (induction x) (simp_all add: filters_of_def)
  with a show ?thesis by simp
qed

lemma Values_Get_permuted:
  assumes "distinct (map fst q)" and "mset q' = mset q"
  shows "Values_Get q' name = Values_Get q name"
proof -
  from assms(2) have "mset (map fst q') = mset (map fst q)" by simp
  with assms(1) have d: "distinct (map fst q')"
    by (metis mset_eq_imp_distinct_iff)
  from assms(2) have "set q' = set q" by (rule mset_eq_setD)
  with assms(1) d have "map_of q' = map_of q"
    by (simp add: map_of_inject_set)
  then show ?thesis by (simp add: Values_Get_def)
qed

lemma Handler_ListImagesV2_order_irrelevant:
  assumes d: "distinct (map fst q)" and m: "mset q' = mset q"
    and fl: "parseMetadataFilters q = Inr fs" "length fs \<le> 1"
  shows "Handler_ListImagesV2 std db accountID q' = Handler_ListImagesV2 std db accountID q"
proof -
  from fl(1) have sup: "\<forall>e \<in> set q. \<forall>op. parse_param e \<noteq> Unsupported op"
    and fs: "fs = filters_of q"
    by (simp_all add: parseMetadataFilters_Inr_iff)
  from m have "set q' = set q" by (rule mset_eq_setD)
  with sup have p': "parseMetadataFilters q' = Inr (filters_of q')"
    by (simp add: parseMetadataFilters_Inr_iff)
  have ms: "mset (filters_of q') = mset fs"
    using mset_filters_of [OF m] fs by simp
  have "filters_of q' = fs"
  proof (cases fs)
    case Nil
    with ms show ?thesis by simp
  next
    case (Cons f rest)
    with fl(2) have "fs = [f]" by simp
    with ms show ?thesis by (simp add: mset_single_iff_right)
  qed
  with p' fl(1) have "parseMetadataFilters q' = parseMetadataFilters q" by simp
  then show ?thesis
    by (simp add: Handler_ListImagesV2_def parsePerPage_def parseSortOrder_def
          Values_Get_permuted [OF d m])
qed

subsection \<open>Following the continuation tokens\<close>

lemma scanImages_valid:
  "\<forall>r \<in> set rows. Meta r \<noteq> [] \<and> Meta r \<noteq> ''{}'' \<longrightarrow> json_Valid std (Meta r)
     \<Longrightarrow> scanImages std rows = Inr rows"
  by (induction rows) (auto simp: scanImage_def)

lemma filter_at_most_one:
  "distinct (map g xs) \<Longrightarrow> \<forall>x \<in> set xs. P x \<longrightarrow> g x = c
     \<Longrightarrow> filter P xs = [] \<or> (\<exists>x. filter P xs = [x])"
proof (induction xs)
  case Nil
  then show ?case by simp
next
  case (Cons a xs)
  show ?case
  proof (cases "P a")
    case True
    with Cons.prems have "\<forall>x \<in> set xs. \<not> P x"
      by (metis distinct.simps(2) image_eqI list.set_intros(1) list.set_intros(2) list.simps(9) set_map)
    then have "filter P xs = []" by (simp add: filter_empty_conv)
    with True show ?thesis by simp
  next
    case False
    with Cons show ?thesis by simp
  qed
qed

lemma concat_map_if: "concat (map (\<lambda>i. if Q i then [i] else []) xs) = filter Q xs"
  by (induction xs) auto

lemma join_metadata_filter:
  assumes "distinct (map (\<lambda>m. (m_account_id m, m_image_id m, m_key m)) (image_metadata db))"
  shows "join_metadata db accountID key op val =
           filter (\<lambda>r. AccountID r = accountID
                      \<and> (\<exists>m \<in> set (image_metadata db).
                            m_account_id m = accountID \<and> m_image_id m = ID r \<and> m_key m = key
                            \<and> opSQL op (m_value m) val))
                  (images db)"
proof -
  let ?P = "\<lambda>i m. AccountID i = m_account_id m \<and> ID i = m_image_id m
                      \<and> AccountID i = accountID \<and> m_key m = key \<and> opSQL op (m_value m) val"
  let ?Q = "\<lambda>r. AccountID r = accountID
                      \<and> (\<exists>m \<in> set (image_metadata db).
                            m_account_id m = accountID \<and> m_image_id m = ID r \<and> m_key m = key
                            \<and> opSQL op (m_value m) val)"
  have one: "map (\<lambda>m. i) (filter (?P i) (image_metadata db)) = (if ?Q i then [i] else [])" for i
  proof -
    have "\<forall>m \<in> set (image_metadata db). ?P i m
            \<longrightarrow> (m_account_id m, m_image_id m, m_key m) = (AccountID i, ID i, key)"
      by auto
    from filter_at_most_one [OF assms this]
    consider "filter (?P i) (image_metadata db) = []"
      | m where "filter (?P i) (image_metadata db) = [m]"
      by blast
    then show ?thesis
    proof cases
      case 1
      then have "\<not> ?Q i" by (auto simp: filter_empty_conv)
      with 1 show ?thesis by simp
    next
      case 2
      then have "m \<in> set (filter (?P i) (image_metadata db))" by simp
      then have "?Q i" by auto
      with 2 show ?thesis by simp
    qed
  qed
  show ?thesis
    unfolding join_metadata_def one by (rule concat_map_if)
qed

lemma distinct_ids_of_account:
  "distinct (map (\<lambda>r. (AccountID r, ID r)) xs) \<Longrightarrow> \<forall>x \<in> set xs. P x \<longrightarrow> AccountID x = a
     \<Longrightarrow> distinct (map ID (filter P xs))"
proof (induction xs)
  case Nil
  then show ?case by simp
next
  case (Cons x xs)
  then have IH: "distinct (map ID (filter P xs))" by simp
  show ?case
  proof (cases "P x")
    case True
    have "ID x \<notin> ID ` set (filter P xs)"
    proof
      assume "ID x \<in> ID ` set (filter P xs)"
      then obtain y where y: "y \<in> set xs" "P y" "ID y = ID x" by auto
      with True Cons.prems(2) have "(AccountID y, ID y) = (AccountID x, ID x)" by simp
      with y(1) have "(AccountID x, ID x) \<in> (\<lambda>r. (AccountID r, ID r)) ` set xs"
        by (metis (mono_tags, lifting) image_eqI)
      with Cons.prems(1) show False by simp
    qed
    with True IH show ?thesis by simp
  next
    case False
    with IH show ?thesis by simp
  qed
qed

lemma matching_images_account:
  "r \<in> set (matching_images db accountID fs) \<Longrightarrow> AccountID r = accountID \<and> r \<in> set (images db)"
  by (auto simp: matching_images_def split: list.splits)

lemma distinct_matching_ids:
  assumes "primary_keys db"
  shows "distinct (map ID (matching_images db accountID fs))"
proof (cases fs)
  case Nil
  then show ?thesis
    using assms distinct_ids_of_account [of "images db" "\<lambda>r. AccountID r = accountID" accountID]
    by (simp add: matching_images_def primary_keys_def)
next
  case (Cons f rest)
  then show ?thesis
    using assms
      distinct_ids_of_account [of "images db"
        "\<lambda>r. AccountID r = accountID
                      \<and> (\<exists>m \<in> set (image_metadata db).
                            m_account_id m = accountID \<and> m_image_id m = ID r \<and> m_key m = Key f
                            \<and> opSQL (Op f) (m_value m) (Value f))" accountID]
    by (simp add: matching_images_def primary_keys_def)
qed

lemma distinct_keys_of_ids:
  "distinct (map ID xs) \<Longrightarrow> distinct (map (\<lambda>r. (f r, ID r)) xs)"
  by (induction xs) auto

lemma matching_images_subset: "set (matching_images db accountID fs) \<subseteq> set (images db)"
  by (auto simp: matching_images_def split: list.splits)

lemma filter_after_pivot:
  assumes "sorted_wrt R (A @ x # B)" and "\<not> R x x" and "\<forall>a. R a x \<longrightarrow> \<not> R x a"
  shows "filter (R x) (A @ x # B) = B"
proof -
  from assms(1) have a: "\<forall>a \<in> set A. R a x" and b: "\<forall>b \<in> set B. R x b"
    by (auto simp: sorted_wrt_append)
  from a assms(3) have "filter (R x) A = []" by (simp add: filter_empty_conv)
  moreover from b have "filter (R x) B = B" by (simp add: filter_id_conv)
  ultimately show ?thesis using assms(2) by simp
qed


lemma split_at_first_bar:
  "CHR ''|'' \<notin> set ts
     \<Longrightarrow> takeWhile (\<lambda>c. c \<noteq> CHR ''|'') (ts @ CHR ''|'' # i) = ts
         \<and> dropWhile (\<lambda>c. c \<noteq> CHR ''|'') (ts @ CHR ''|'' # i) = CHR ''|'' # i"
  by (induction ts) auto

lemma splitCursor_encoded:
  "CHR ''|'' \<notin> set ts \<Longrightarrow> splitCursor (ts @ ''|'' @ i) = Some (ts, i)"
  by (simp add: splitCursor_def split_at_first_bar)

lemma sort_direction_parseSortOrder:
  "sort_direction (parseSortOrder q)
     = (if EqualFold_desc (Values_Get q ''sort_order'') then ''DESC'' else ''ASC'')"
  by (simp add: sort_direction_def parseSortOrder_def EqualFold_desc_def Let_def)

lemma column_value_text:
  "sqlite_number std t = None \<Longrightarrow> column_value std t = (True, 0, t)"
  by (simp add: column_value_def)

lemma after_cursor_strictly_after:
  "sqlite_number std ts = None \<Longrightarrow> sqlite_number std (Uploaded r) = None
     \<Longrightarrow> after_cursor std (if EqualFold_desc so then ''DESC'' else ''ASC'') ts i r
         = strictly_after so (ts, i) r"
  by (auto simp: after_cursor_def strictly_after_def column_value_text Let_def less_prod_def)

lemma filter_after_cursor:
  assumes "sqlite_number std ts = None"
    and "\<forall>r \<in> set xs. sqlite_number std (Uploaded r) = None"
  shows "filter (after_cursor std (if EqualFold_desc so then ''DESC'' else ''ASC'') ts i) xs
           = filter (strictly_after so (ts, i)) xs"
  using assms by (intro filter_cong) (auto simp: after_cursor_strictly_after)

lemma strictly_before_less:
  "strictly_before so a b
     = (if EqualFold_desc so then (Uploaded b, ID b) < (Uploaded a, ID a)
        else (Uploaded a, ID a) < (Uploaded b, ID b))"
  by (auto simp: strictly_before_def strictly_after_def less_prod_def)

lemma strictly_before_irrefl: "\<not> strictly_before so x x"
  by (simp add: strictly_before_less)

lemma strictly_before_asym: "strictly_before so a x \<Longrightarrow> \<not> strictly_before so x a"
  by (auto simp: strictly_before_less split: if_splits)

lemma sorted_order_by:
  assumes "distinct (map ID xs)"
    and "\<forall>r \<in> set xs. sqlite_number std (Uploaded r) = None"
  shows "sorted_wrt (strictly_before so)
           (order_by std (if EqualFold_desc so then ''DESC'' else ''ASC'') xs)"
proof -
  let ?k = "\<lambda>r. (column_value std (Uploaded r), ID r)"
  have "sorted (map ?k (sort_key ?k xs))" by simp
  moreover have "distinct (map ?k (sort_key ?k xs))"
    using distinct_keys_of_ids [OF assms(1), of "\<lambda>r. column_value std (Uploaded r)"]
    by (simp add: distinct_map)
  ultimately have s: "sorted_wrt (<) (map ?k (sort_key ?k xs))"
    by (simp add: strict_sorted_iff)
  then have asc: "sorted_wrt (\<lambda>a b. ?k a < ?k b) (sort_key ?k xs)"
    by (simp add: sorted_wrt_map)
  have key: "?k a < ?k b \<longleftrightarrow> (Uploaded a, ID a) < (Uploaded b, ID b)"
    if "a \<in> set xs" "b \<in> set xs" for a b
    using that assms(2) by (auto simp: column_value_text less_prod_def)
  show ?thesis
  proof (cases "EqualFold_desc so")
    case True
    from asc have "sorted_wrt (\<lambda>a b. ?k b < ?k a) (rev (sort_key ?k xs))"
      by (simp add: sorted_wrt_rev)
    then have "sorted_wrt (strictly_before so) (rev (sort_key ?k xs))"
    proof (rule sorted_wrt_mono_rel [rotated])
      fix a b
      assume "a \<in> set (rev (sort_key ?k xs))" "b \<in> set (rev (sort_key ?k xs))" "?k b < ?k a"
      then have "(Uploaded b, ID b) < (Uploaded a, ID a)"
        using key [of b a] by simp
      with True show "strictly_before so a b"
        by (simp only: strictly_before_less if_True)
    qed
    with True show ?thesis
      by (simp add: order_by_def)
  next
    case False
    from asc have "sorted_wrt (strictly_before so) (sort_key ?k xs)"
    proof (rule sorted_wrt_mono_rel [rotated])
      fix a b
      assume "a \<in> set (sort_key ?k xs)" "b \<in> set (sort_key ?k xs)" "?k a < ?k b"
      then have "(Uploaded a, ID a) < (Uploaded b, ID b)"
        using key [of a b] by simp
      with False show "strictly_before so a b"
        by (simp only: strictly_before_less if_False)
    qed
    with False show ?thesis
      by (simp add: order_by_def)
  qed
qed

lemma filter_order_by: "filter P (order_by std ord xs) = order_by std ord (filter P xs)"
  by (simp add: order_by_def filter_sort rev_filter [symmetric])

lemma set_order_by: "set (order_by std ord xs) = set xs"
  by (simp add: order_by_def)

lemma mset_order_by: "mset (order_by std ord xs) = mset xs"
  by (simp add: order_by_def)

lemma set_limit: "set (limit n xs) \<subseteq> set xs"
  by (auto simp: limit_def dest: in_set_takeD)


lemma scanImages_rows:
  assumes "\<forall>r \<in> set (images db). Meta r \<noteq> [] \<and> Meta r \<noteq> ''{}'' \<longrightarrow> json_Valid std (Meta r)"
    and "set xs \<subseteq> set (images db)"
  shows "scanImages std (limit n (order_by std ord xs)) = Inr (limit n (order_by std ord xs))"
proof -
  have "set (limit n (order_by std ord xs)) \<subseteq> set (images db)"
    using set_limit [of n "order_by std ord xs"] assms(2) by (auto simp: set_order_by)
  with assms(1) show ?thesis
    by (intro scanImages_valid) blast
qed

lemma ListImagesV2_page:
  assumes js: "\<forall>r \<in> set (images db). Meta r \<noteq> [] \<and> Meta r \<noteq> ''{}'' \<longrightarrow> json_Valid std (Meta r)"
  shows "ListImagesV2 std db accountID [] n so
           = page_result std (limit n (order_by std (sort_direction so) (matching_images db accountID []))) n"
    and "CHR ''|'' \<notin> set ts \<Longrightarrow>
         ListImagesV2 std db accountID (ts @ ''|'' @ i) n so
           = page_result std (limit n (order_by std (sort_direction so)
               (filter (after_cursor std (sort_direction so) ts i) (matching_images db accountID [])))) n"
proof -
  have sub: "set (filter (\<lambda>r. AccountID r = accountID) (images db)) \<subseteq> set (images db)" by auto
  show "ListImagesV2 std db accountID [] n so
           = page_result std (limit n (order_by std (sort_direction so) (matching_images db accountID []))) n"
    by (simp add: ListImagesV2_def matching_images_def Let_def scanImages_rows [OF js])
  assume "CHR ''|'' \<notin> set ts"
  then have "splitCursor (ts @ CHR ''|'' # i) = Some (ts, i)"
    using splitCursor_encoded [of ts i] by simp
  then show "ListImagesV2 std db accountID (ts @ ''|'' @ i) n so
           = page_result std (limit n (order_by std (sort_direction so)
               (filter (after_cursor std (sort_direction so) ts i) (matching_images db accountID [])))) n"
    by (simp add: ListImagesV2_def matching_images_def Let_def scanImages_rows [OF js] sub subset_trans [OF filter_is_subset])
qed

lemma ListImagesWithFilter_page:
  assumes js: "\<forall>r \<in> set (images db). Meta r \<noteq> [] \<and> Meta r \<noteq> ''{}'' \<longrightarrow> json_Valid std (Meta r)"
    and pk: "primary_keys db"
  shows "ListImagesWithFilter std db accountID [] n so (Key f) (Op f) (Value f)
           = page_result std (limit n (order_by std (sort_direction so) (matching_images db accountID [f]))) n"
    and "CHR ''|'' \<notin> set ts \<Longrightarrow>
         ListImagesWithFilter std db accountID (ts @ ''|'' @ i) n so (Key f) (Op f) (Value f)
           = page_result std (limit n (order_by std (sort_direction so)
               (filter (after_cursor std (sort_direction so) ts i) (matching_images db accountID [f])))) n"
proof -
  have j: "join_metadata db accountID (Key f) (Op f) (Value f) = matching_images db accountID [f]"
    using pk by (simp add: join_metadata_filter primary_keys_def matching_images_def)
  have sub: "set (matching_images db accountID [f]) \<subseteq> set (images db)"
    using matching_images_account by blast
  show "ListImagesWithFilter std db accountID [] n so (Key f) (Op f) (Value f)
           = page_result std (limit n (order_by std (sort_direction so) (matching_images db accountID [f]))) n"
    by (simp add: ListImagesWithFilter_def j Let_def scanImages_rows [OF js sub])
  have sub2: "set (filter (after_cursor std (sort_direction so) ts i) (matching_images db accountID [f]))
               \<subseteq> set (images db)"
    using sub by auto
  assume "CHR ''|'' \<notin> set ts"
  then have "splitCursor (ts @ CHR ''|'' # i) = Some (ts, i)"
    using splitCursor_encoded [of ts i] by simp
  then show "ListImagesWithFilter std db accountID (ts @ ''|'' @ i) n so (Key f) (Op f) (Value f)
           = page_result std (limit n (order_by std (sort_direction so)
               (filter (after_cursor std (sort_direction so) ts i) (matching_images db accountID [f])))) n"
    by (simp add: ListImagesWithFilter_def j Let_def scanImages_rows [OF js sub2])
qed

lemma parsePerPage_range: "1 \<le> parsePerPage q \<and> parsePerPage q \<le> 100"
  by (simp add: parsePerPage_def Let_def split: option.splits)

lemma with_token_params:
  assumes "map_of q ''continuation_token'' = None"
  shows "parsePerPage (with_token c q) = parsePerPage q"
    and "parseSortOrder (with_token c q) = parseSortOrder q"
    and "parseMetadataFilters (with_token c q) = parseMetadataFilters q"
    and "Values_Get (with_token c q) ''continuation_token'' = c"
proof -
  show "parsePerPage (with_token c q) = parsePerPage q"
    by (simp add: with_token_def parsePerPage_def Values_Get_def)
  show "parseSortOrder (with_token c q) = parseSortOrder q"
    by (simp add: with_token_def parseSortOrder_def Values_Get_def)
  have "parse_param (''continuation_token'', [c]) = Skipped"
    by (simp add: parse_param_def)
  then show "parseMetadataFilters (with_token c q) = parseMetadataFilters q"
    by (simp add: with_token_def parseMetadataFilters_def)
  show "Values_Get (with_token c q) ''continuation_token'' = c"
    using assms by (simp add: with_token_def Values_Get_def)
qed


lemma Handler_ListImagesV2_page:
  assumes js: "\<forall>r \<in> set (images db). Meta r \<noteq> [] \<and> Meta r \<noteq> ''{}'' \<longrightarrow> json_Valid std (Meta r)"
    and pk: "primary_keys db"
    and tok: "map_of q ''continuation_token'' = None"
    and fl: "parseMetadataFilters q = Inr fs" "length fs \<le> 1"
    and num: "\<forall>r \<in> set (images db). sqlite_number std (Uploaded r) = None"
  shows "Handler_ListImagesV2 std db accountID (with_token [] q)
           = list_response (page_result std (limit (parsePerPage q)
               (order_by std (if EqualFold_desc (Values_Get q ''sort_order'') then ''DESC'' else ''ASC'')
                  (matching_images db accountID fs))) (parsePerPage q))"
    and "CHR ''|'' \<notin> set ts \<Longrightarrow> sqlite_number std ts = None \<Longrightarrow>
         Handler_ListImagesV2 std db accountID (with_token (ts @ ''|'' @ i) q)
           = list_response (page_result std (limit (parsePerPage q)
               (order_by std (if EqualFold_desc (Values_Get q ''sort_order'') then ''DESC'' else ''ASC'')
                  (filter (strictly_after (Values_Get q ''sort_order'') (ts, i))
                     (matching_images db accountID fs)))) (parsePerPage q))"
proof -
  have ac: "filter (after_cursor std (if EqualFold_desc so then ''DESC'' else ''ASC'') ts i)
                (matching_images db accountID fs')
              = filter (strictly_after so (ts, i)) (matching_images db accountID fs')"
    if "sqlite_number std ts = None" for so fs'
    using that num matching_images_subset [of db accountID fs']
    by (intro filter_after_cursor) auto
  from fl(2) consider "fs = []" | f where "fs = [f]"
    by (cases fs) auto
  note cases = this
  show "Handler_ListImagesV2 std db accountID (with_token [] q)
           = list_response (page_result std (limit (parsePerPage q)
               (order_by std (if EqualFold_desc (Values_Get q ''sort_order'') then ''DESC'' else ''ASC'')
                  (matching_images db accountID fs))) (parsePerPage q))"
  proof (cases rule: cases)
    case 1
    then show ?thesis
      using fl(1)
      by (simp add: Handler_ListImagesV2_def with_token_params [OF tok] Let_def
            ListImagesV2_page(1) [OF js] sort_direction_parseSortOrder)
  next
    case 2
    then show ?thesis
      using fl(1)
      by (simp add: Handler_ListImagesV2_def with_token_params [OF tok] Let_def
            ListImagesWithFilter_page(1) [OF js pk] sort_direction_parseSortOrder)
  qed
  assume bar: "CHR ''|'' \<notin> set ts" and nonnum: "sqlite_number std ts = None"
  show "Handler_ListImagesV2 std db accountID (with_token (ts @ ''|'' @ i) q)
           = list_response (page_result std (limit (parsePerPage q)
               (order_by std (if EqualFold_desc (Values_Get q ''sort_order'') then ''DESC'' else ''ASC'')
                  (filter (strictly_after (Values_Get q ''sort_order'') (ts, i))
                     (matching_images db accountID fs)))) (parsePerPage q))"
  proof (cases rule: cases)
    case 1
    then show ?thesis
      using fl(1) ListImagesV2_page(2) [OF js bar, of accountID i "parsePerPage q" "parseSortOrder q"]
      by (simp add: Handler_ListImagesV2_def with_token_params [OF tok] Let_def
            sort_direction_parseSortOrder ac [OF nonnum])
  next
    case 2
    then show ?thesis
      using fl(1) ListImagesWithFilter_page(2) [OF js pk bar, of accountID i "parsePerPage q" "parseSortOrder q" f]
      by (simp add: Handler_ListImagesV2_def with_token_params [OF tok] Let_def
            sort_direction_parseSortOrder ac [OF nonnum])
  qed
qed

lemma follow_tokens_suffix:
  assumes first: "Handler_ListImagesV2 std db accountID (with_token [] q)
                    = list_response (page_result std (limit n S) n)"
    and later: "\<And>A x B. S = A @ x # B \<Longrightarrow>
                  Handler_ListImagesV2 std db accountID (with_token (Uploaded x @ ''|'' @ ID x) q)
                    = list_response (page_result std (limit n B) n)"
    and n: "1 \<le> n"
    and canon: "\<forall>x \<in> set S. time_reformat std (Uploaded x) = Uploaded x"
  shows "(c = [] \<and> B = S) \<or> (\<exists>A x. S = A @ x # B \<and> c = Uploaded x @ ''|'' @ ID x)
         \<Longrightarrow> length B < fuel
         \<Longrightarrow> \<exists>pages. follow_tokens fuel std db accountID q c = Some (Inr pages)
                       \<and> concat pages = B"
proof (induction fuel arbitrary: c B)
  case 0
  then show ?case by simp
next
  case (Suc k)
  from Suc.prems(1) first later
  have resp: "Handler_ListImagesV2 std db accountID (with_token c q)
                = list_response (page_result std (limit n B) n)"
    by auto
  from Suc.prems(1) obtain A' where A': "S = A' @ B"
    by (metis append.assoc append_Cons append_Nil)
  from n have lim: "limit n B = take (nat n) B" by (simp add: limit_def)
  show ?case
  proof (cases "length B < nat n")
    case True
    then have "page_result std (take (nat n) B) n = Inr (B, [])"
      using n by (simp add: page_result_def)
    with resp lim have "Handler_ListImagesV2 std db accountID (with_token c q) = ApiSuccess (B, [])"
      by (simp add: list_response_def)
    then show ?thesis by simp
  next
    case False
    define page where "page = take (nat n) B"
    define B' where "B' = drop (nat n) B"
    from False n have len: "length page = nat n" and ne: "page \<noteq> []"
      unfolding page_def by auto
    have split: "B = page @ B'" by (simp add: page_def B'_def)
    let ?c = "Uploaded (last page) @ ''|'' @ ID (last page)"
    from ne have "last page \<in> set page" by simp
    with split A' have "last page \<in> set S" by simp
    with canon have rt: "time_reformat std (Uploaded (last page)) = Uploaded (last page)"
      by blast
    from len n have "int (length page) = n" by simp
    with ne rt have "page_result std page n = Inr (page, ?c)"
      by (simp add: page_result_def)
    with resp lim have h: "Handler_ListImagesV2 std db accountID (with_token c q)
                             = ApiSuccess (page, ?c)"
      by (simp add: list_response_def page_def)
    from ne have "page = butlast page @ [last page]" by simp
    with split A' have "S = (A' @ butlast page) @ last page # B'"
      by (metis append.assoc append_Cons append_Nil)
    then have at: "(?c = [] \<and> B' = S) \<or> (\<exists>A x. S = A @ x # B' \<and> ?c = Uploaded x @ ''|'' @ ID x)"
      by blast
    from n have "1 \<le> nat n" by simp
    with False Suc.prems(2) have "length B' < k"
      unfolding B'_def by simp
    from Suc.IH [OF at this] obtain pages
      where p: "follow_tokens k std db accountID q ?c = Some (Inr pages)" "concat pages = B'"
      by blast
    have "follow_tokens (Suc k) std db accountID q c = Some (Inr (page # pages))"
      using h p(1) by simp
    with p(2) split show ?thesis by simp
  qed
qed


lemma page_result_take:
  "1 \<le> n \<Longrightarrow> \<exists>next. page_result std (limit n T) n = Inr (take (nat n) T, next)"
  by (auto simp: page_result_def limit_def)

lemma take_prefix_of_sorted:
  assumes "sorted_wrt R T" and "r \<in> set T" and "r \<notin> set (take k T)"
  shows "length (take k T) = k \<and> (\<forall>p \<in> set (take k T). R p r)"
proof -
  have "set T = set (take k T) \<union> set (drop k T)"
    by (metis append_take_drop_id set_append)
  with assms(2,3) have d: "r \<in> set (drop k T)" by blast
  then have "drop k T \<noteq> []" by auto
  then have "k < length T" by simp
  then have l: "length (take k T) = k" by simp
  from assms(1) have "sorted_wrt R (take k T @ drop k T)" by simp
  then have "\<forall>p \<in> set (take k T). \<forall>y \<in> set (drop k T). R p y"
    unfolding sorted_wrt_append by blast
  with d l show ?thesis by blast
qed

text \<open>
  A cursor whose timestamp is a numeric literal is compared as that number, which sorts
  before every stored text: ascending from \<open>5|x\<close> the listing starts over, and
  descending from \<open>3000|x\<close> it is empty. A cursor that the listing issued carries a
  stored text and cuts the listing after its image.
\<close>

lemma numeric_cursor_timestamp:
  "map_sum id (map_prod (map ID) id) (ListImagesV2 test_stdlib test_db ''acct-1'' ''5|x'' 10 ''asc'')
     = Inr ([''img-a'', ''img-b'', ''img-c''], [])
   \<and> ListImagesV2 test_stdlib test_db ''acct-1'' ''3000|x'' 10 ''desc'' = Inr ([], [])
   \<and> map_sum id (map_prod (map ID) id)
       (ListImagesV2 test_stdlib test_db ''acct-1'' ''2024-01-01T00:00:00Z|img-a'' 10 ''asc'')
     = Inr ([''img-b'', ''img-c''], [])"
  by code_simp

text \<open>
  Claim C1. The database keeps its primary keys, its stored metadata is what
  \<open>json.Unmarshal\<close> accepts, and every stored timestamp is a text that the round trip
  through \<open>time.Time\<close> gives back, that contains no bar and that is no numeric literal
  (so it is with the RFC 3339 texts that \<open>CreateImage\<close> writes). The query has no
  token of its own and at most one filter; any \<open>per_page\<close> and any \<open>sort_order\<close> are
  allowed. Then a client that starts without a token and follows the tokens, allowed
  more requests than there are images, ends with pages whose concatenation holds every
  matching image exactly once, no id twice, in the strict order of (uploaded, id) in the
  requested direction. And a request with the cursor of a pair \<open>(ts, id)\<close>, where \<open>ts\<close>
  is such a text as well (no bar, no numeric literal), is answered with a page of
  matching images strictly after the pair, in order, and every matching image strictly
  after the pair that is not on the page comes after all of the page, which is then
  full.
\<close>

theorem follow_tokens_visits_each_match_once:
  assumes pk: "primary_keys db"
    and js: "\<forall>r \<in> set (images db). Meta r \<noteq> [] \<and> Meta r \<noteq> ''{}'' \<longrightarrow> json_Valid std (Meta r)"
    and bars: "\<forall>r \<in> set (images db).
                 time_reformat std (Uploaded r) = Uploaded r \<and> CHR ''|'' \<notin> set (Uploaded r)
                 \<and> sqlite_number std (Uploaded r) = None"
    and tok: "map_of q ''continuation_token'' = None"
    and fl: "parseMetadataFilters q = Inr fs" "length fs \<le> 1"
    and fuel: "length (images db) < fuel"
  shows "(\<exists>pages. follow_tokens fuel std db accountID q [] = Some (Inr pages)
            \<and> mset (concat pages) = mset (matching_images db accountID fs)
            \<and> distinct (map ID (concat pages))
            \<and> sorted_wrt (strictly_before (Values_Get q ''sort_order'')) (concat pages))
         \<and> (\<forall>ts i. CHR ''|'' \<notin> set ts \<and> sqlite_number std ts = None \<longrightarrow>
               (\<exists>page next.
                  Handler_ListImagesV2 std db accountID (with_token (ts @ ''|'' @ i) q)
                    = ApiSuccess (page, next)
                  \<and> (\<forall>r \<in> set page. r \<in> set (matching_images db accountID fs)
                         \<and> strictly_after (Values_Get q ''sort_order'') (ts, i) r)
                  \<and> sorted_wrt (strictly_before (Values_Get q ''sort_order'')) page
                  \<and> (\<forall>r \<in> set (matching_images db accountID fs).
                        strictly_after (Values_Get q ''sort_order'') (ts, i) r \<and> r \<notin> set page
                        \<longrightarrow> int (length page) = parsePerPage q
                            \<and> (\<forall>p \<in> set page. strictly_before (Values_Get q ''sort_order'') p r))))"
proof (intro conjI allI impI)
  define so where "so = Values_Get q ''sort_order''"
  define ord where "ord = (if EqualFold_desc so then ''DESC'' else ''ASC'')"
  define n where "n = parsePerPage q"
  define M where "M = matching_images db accountID fs"
  define S where "S = order_by std ord M"
  have n1: "1 \<le> n" using parsePerPage_range [of q] by (simp add: n_def)
  from bars have num: "\<forall>r \<in> set (images db). sqlite_number std (Uploaded r) = None"
    by blast
  have numM: "\<forall>r \<in> set M. sqlite_number std (Uploaded r) = None"
    using num matching_images_subset [of db accountID fs] by (auto simp: M_def)
  have dM: "distinct (map ID M)"
    unfolding M_def by (rule distinct_matching_ids [OF pk])
  have sS: "sorted_wrt (strictly_before so) S"
    unfolding S_def ord_def by (rule sorted_order_by [OF dM numM])
  have first: "Handler_ListImagesV2 std db accountID (with_token [] q)
                 = list_response (page_result std (limit n S) n)"
    using Handler_ListImagesV2_page(1) [OF js pk tok fl num]
    by (simp add: S_def ord_def so_def n_def M_def)
  have later: "Handler_ListImagesV2 std db accountID (with_token (Uploaded x @ ''|'' @ ID x) q)
                 = list_response (page_result std (limit n B) n)"
    if dec: "S = A @ x # B" for A x B
  proof -
    from dec have "x \<in> set S" by simp
    then have "x \<in> set (images db)"
      using matching_images_account [of x db accountID fs]
      by (simp add: S_def set_order_by M_def)
    with bars have bar: "CHR ''|'' \<notin> set (Uploaded x)"
      and nonnum: "sqlite_number std (Uploaded x) = None"
      by blast+
    have "order_by std ord (filter (strictly_after so (Uploaded x, ID x)) M)
            = filter (strictly_before so x) S"
      by (simp add: S_def filter_order_by strictly_before_def [abs_def])
    also have "\<dots> = B"
      unfolding dec
      using sS strictly_before_irrefl strictly_before_asym
      by (intro filter_after_pivot) (auto simp: dec)
    finally show ?thesis
      using Handler_ListImagesV2_page(2) [OF js pk tok fl num bar nonnum, of accountID "ID x"]
      by (simp add: ord_def so_def n_def M_def)
  qed
  have "length S \<le> length (images db)"
    by (simp add: S_def order_by_def M_def matching_images_def split: list.splits)
  with fuel have lS: "length S < fuel" by simp
  have "\<exists>pages. follow_tokens fuel std db accountID q [] = Some (Inr pages) \<and> concat pages = S"
  proof (rule follow_tokens_suffix [where S = S and n = n and c = "[]" and B = S])
    show "Handler_ListImagesV2 std db accountID (with_token [] q)
            = list_response (page_result std (limit n S) n)"
      by (rule first)
    show "\<And>A x B. S = A @ x # B \<Longrightarrow>
            Handler_ListImagesV2 std db accountID (with_token (Uploaded x @ ''|'' @ ID x) q)
              = list_response (page_result std (limit n B) n)"
      by (rule later)
    show "1 \<le> n" by (rule n1)
    show "\<forall>x \<in> set S. time_reformat std (Uploaded x) = Uploaded x"
      using bars matching_images_account [of _ db accountID fs]
      by (auto simp: S_def set_order_by M_def)
    show "([] = [] \<and> S = S) \<or> (\<exists>A x. S = A @ x # S \<and> [] = Uploaded x @ ''|'' @ ID x)"
      by simp
    show "length S < fuel" by (rule lS)
  qed
  then obtain pages where p: "follow_tokens fuel std db accountID q [] = Some (Inr pages)"
    "concat pages = S"
    by blast
  have mS: "mset S = mset M" by (simp add: S_def mset_order_by)
  then have "mset (map ID S) = mset (map ID M)" by simp
  with dM have "distinct (map ID S)"
    by (metis mset_eq_imp_distinct_iff)
  with p mS sS
  show "\<exists>pages. follow_tokens fuel std db accountID q [] = Some (Inr pages)
            \<and> mset (concat pages) = mset (matching_images db accountID fs)
            \<and> distinct (map ID (concat pages))
            \<and> sorted_wrt (strictly_before (Values_Get q ''sort_order'')) (concat pages)"
    by (auto simp: M_def so_def)
  fix ts i
  assume cur: "CHR ''|'' \<notin> set ts \<and> sqlite_number std ts = None"
  then have bar: "CHR ''|'' \<notin> set ts" and nonnum: "sqlite_number std ts = None"
    by simp_all
  define T where "T = order_by std ord (filter (strictly_after so (ts, i)) M)"
  have "distinct (map ID (filter (strictly_after so (ts, i)) M))"
    using dM by (rule distinct_map_filter)
  moreover have "\<forall>r \<in> set (filter (strictly_after so (ts, i)) M).
                   sqlite_number std (Uploaded r) = None"
    using numM by simp
  ultimately have sT: "sorted_wrt (strictly_before so) T"
    unfolding T_def ord_def by (rule sorted_order_by)
  have setT: "set T = {r \<in> set M. strictly_after so (ts, i) r}"
    by (auto simp: T_def set_order_by)
  from page_result_take [OF n1, of std T] obtain nxt
    where pr: "page_result std (limit n T) n = Inr (take (nat n) T, nxt)" by blast
  have h: "Handler_ListImagesV2 std db accountID (with_token (ts @ ''|'' @ i) q)
             = ApiSuccess (take (nat n) T, nxt)"
    using Handler_ListImagesV2_page(2) [OF js pk tok fl num bar nonnum, of accountID i] pr
    by (simp add: T_def ord_def so_def n_def M_def list_response_def)
  have a: "\<forall>r \<in> set (take (nat n) T). r \<in> set M \<and> strictly_after so (ts, i) r"
    using setT by (auto dest: in_set_takeD)
  have b: "sorted_wrt (strictly_before so) (take (nat n) T)"
    using sT by simp
  have c: "\<forall>r \<in> set M. strictly_after so (ts, i) r \<and> r \<notin> set (take (nat n) T)
             \<longrightarrow> int (length (take (nat n) T)) = n
                 \<and> (\<forall>p \<in> set (take (nat n) T). strictly_before so p r)"
  proof (intro ballI impI)
    fix r
    assume "r \<in> set M" and "strictly_after so (ts, i) r \<and> r \<notin> set (take (nat n) T)"
    then have "r \<in> set T" and "r \<notin> set (take (nat n) T)"
      using setT by auto
    from take_prefix_of_sorted [OF sT this] n1
    show "int (length (take (nat n) T)) = n
            \<and> (\<forall>p \<in> set (take (nat n) T). strictly_before so p r)"
      by simp
  qed
  from h a b c
  show "\<exists>page next.
          Handler_ListImagesV2 std db accountID (with_token (ts @ ''|'' @ i) q)
            = ApiSuccess (page, next)
          \<and> (\<forall>r \<in> set page. r \<in> set (matching_images db accountID fs)
                 \<and> strictly_after (Values_Get q ''sort_order'') (ts, i) r)
          \<and> sorted_wrt (strictly_before (Values_Get q ''sort_order'')) page
          \<and> (\<forall>r \<in> set (matching_images db accountID fs).
                strictly_after (Values_Get q ''sort_order'') (ts, i) r \<and> r \<notin> set page
                \<longrightarrow> int (length page) = parsePerPage q
                    \<and> (\<forall>p \<in> set page. strictly_before (Values_Get q ''sort_order'') p r))"
    unfolding M_def so_def n_def by blast
qed

text \<open>
  On the test database: two images per page, newest first; and one image per page
  under the filter \<open>env = production\<close>.
\<close>

theorem follow_tokens_visits_each_match_once_witness:
  "(\<exists>pages. follow_tokens 5 test_stdlib test_db ''acct-1'' newest_first [] = Some (Inr pages)
      \<and> mset (concat pages) = mset (matching_images test_db ''acct-1'' [])
      \<and> distinct (map ID (concat pages))
      \<and> sorted_wrt (strictly_before ''desc'') (concat pages))
   \<and> (\<exists>pages. follow_tokens 5 test_stdlib test_db ''acct-1'' production_only [] = Some (Inr pages)
      \<and> mset (concat pages)
          = mset (matching_images test_db ''acct-1''
                    [\<lparr>Key = ''env'', Op = ''eq'', Value = ''production''\<rparr>])
      \<and> distinct (map ID (concat pages))
      \<and> sorted_wrt (strictly_before []) (concat pages))"
proof -
  have pk: "primary_keys test_db"
    by (simp add: primary_keys_def test_db_def test_image_def)
  have js: "\<forall>r \<in> set (images test_db). Meta r \<noteq> [] \<and> Meta r \<noteq> ''{}''
              \<longrightarrow> json_Valid test_stdlib (Meta r)"
    by (simp add: test_stdlib_def)
  have bars: "\<forall>r \<in> set (images test_db).
                time_reformat test_stdlib (Uploaded r) = Uploaded r
                \<and> CHR ''|'' \<notin> set (Uploaded r)
                \<and> sqlite_number test_stdlib (Uploaded r) = None"
    by (simp add: test_db_def test_image_def test_stdlib_def integer_literal_def isDigit_def)
  have fuel: "length (images test_db) < 5"
    by (simp add: test_db_def)
  have t1: "map_of newest_first ''continuation_token'' = None"
    by (simp add: newest_first_def)
  have t2: "map_of production_only ''continuation_token'' = None"
    by (simp add: production_only_def)
  have f1: "parseMetadataFilters newest_first = Inr []"
    by code_simp
  have f2: "parseMetadataFilters production_only
              = Inr [\<lparr>Key = ''env'', Op = ''eq'', Value = ''production''\<rparr>]"
    by code_simp
  have s1: "Values_Get newest_first ''sort_order'' = ''desc''"
    by code_simp
  have s2: "Values_Get production_only ''sort_order'' = []"
    by code_simp
  show ?thesis
    using s1 s2
      follow_tokens_visits_each_match_once [OF pk js bars t1 f1 _ fuel, of "''acct-1''"]
      follow_tokens_visits_each_match_once [OF pk js bars t2 f2 _ fuel, of "''acct-1''"]
    by simp
qed

end
